theory Spec2Isabelle
  imports Main "HOL-Library.Word"
begin

section \<open>Memory model\<close>

text \<open>
  The shared / weak pointer subsystem of the repository (shared.h, weak.h), embedded
  with an explicit heap. A control block lives at an address; every \<open>new\<close> takes the
  next unused address, so an address names one allocation for ever. A raw pointer
  \<open>T*\<close> is null, the address of an object allocated on its own, or the address of the
  storage inside a \<open>ControlBlockHolder\<close> (what \<open>GetPtr()\<close> returns).

  What C++ leaves undefined is an error value here: going through a null pointer
  (\<open>NullDereference\<close>) and touching an object or a control block that has been freed
  (\<open>DanglingAccess\<close>). \<open>BadWeakPtr\<close> is the exception of the source;
  \<open>ConstructorThrew\<close> stands for an exception that leaves the constructor of the
  managed type.
\<close>

type_synonym addr = nat

datatype raw_ptr = NullPtr | HeapObj addr | Storage addr

datatype error = BadWeakPtr | NullDereference | DanglingAccess | ConstructorThrew

text \<open>\<open>SharedPtr<T>\<close> and \<open>WeakPtr<T>\<close>: the two fields \<open>ptr_\<close> and \<open>cblock_\<close> of each class.\<close>

record SharedPtr =
  sp_ptr :: raw_ptr
  sp_cblock :: "addr option"

record WeakPtr =
  wp_ptr :: raw_ptr
  wp_cblock :: "addr option"

text \<open>
  \<open>IControlBlock\<close> with its two \<open>size_t\<close> counters (64 bits, wrapping; the fields
  \<open>strong_ref_counter_\<close> and \<open>weak_ref_counter_\<close> of the source), and the two
  final subclasses: \<open>ControlBlockPtr<T>\<close> holds \<open>ptr_\<close>, \<open>ControlBlockHolder<T>\<close> holds
  the storage of the object itself.
\<close>

datatype cb_variant = ControlBlockPtr raw_ptr | ControlBlockHolder

record IControlBlock =
  strong_ref_counter :: "64 word"
  weak_ref_counter :: "64 word"
  variant :: cb_variant

text \<open>
  The trace records what the claims count: every \<open>new\<close> of a control block, every
  call of \<open>Dispose\<close> (with the value of the strong counter at the call) and every call
  of \<open>Destroy\<close> (with the values of the strong and of the weak counter at the call).
\<close>

datatype event =
  AllocBlock addr cb_variant
  | AllocObject addr
  | DisposeCall addr "64 word"
  | DestroyCall addr "64 word" "64 word"

text \<open>
  The heap: the live control blocks, the live managed objects, the next address and the
  trace. An object is known by the one field the subsystem reads or writes in it, the
  \<open>weak_this_\<close> of \<open>EnableSharedFromThis\<close>; an object of a type without the capability
  never has it written and keeps the empty value.
\<close>

record heap =
  cblocks :: "addr \<rightharpoonup> IControlBlock"
  objs :: "raw_ptr \<rightharpoonup> WeakPtr"
  next_addr :: addr
  trace :: "event list"

definition bindE :: "error + 'a \<Rightarrow> ('a \<Rightarrow> error + 'b) \<Rightarrow> error + 'b" where
  "bindE m f = (case m of Inl e \<Rightarrow> Inl e | Inr x \<Rightarrow> f x)"

definition empty_heap :: heap where
  "empty_heap = \<lparr>cblocks = Map.empty, objs = Map.empty, next_addr = 0, trace = []\<rparr>"

text \<open>\<open>cblock_->...\<close>: reading through a control block pointer.\<close>

definition load_cb :: "heap \<Rightarrow> addr \<Rightarrow> error + IControlBlock" where
  "load_cb s a = (case cblocks s a of None \<Rightarrow> Inl DanglingAccess | Some cb \<Rightarrow> Inr cb)"

definition store_cb :: "addr \<Rightarrow> IControlBlock \<Rightarrow> heap \<Rightarrow> heap" where
  "store_cb a cb s = s\<lparr>cblocks := (cblocks s)(a \<mapsto> cb)\<rparr>"

text \<open>\<open>new T(...)\<close> by the caller: a fresh object, its \<open>weak_this_\<close> default-constructed.\<close>

definition new_object :: "heap \<Rightarrow> raw_ptr \<times> heap" where
  "new_object s =
     (HeapObj (next_addr s),
      s\<lparr>objs := (objs s)(HeapObj (next_addr s) \<mapsto> \<lparr>wp_ptr = NullPtr, wp_cblock = None\<rparr>),
        next_addr := Suc (next_addr s),
        trace := trace s @ [AllocObject (next_addr s)]\<rparr>)"

section \<open>IControlBlock\<close>

definition GetStrongRefsCount :: "IControlBlock \<Rightarrow> 64 word" where
  "GetStrongRefsCount cb = strong_ref_counter cb"

definition AddStrongRef :: "IControlBlock \<Rightarrow> IControlBlock" where
  "AddStrongRef cb = cb\<lparr>strong_ref_counter := strong_ref_counter cb + 1\<rparr>"

definition RemoveStrongRef :: "IControlBlock \<Rightarrow> IControlBlock" where
  "RemoveStrongRef cb = cb\<lparr>strong_ref_counter := strong_ref_counter cb - 1\<rparr>"

definition IsZeroStrongOwning :: "IControlBlock \<Rightarrow> bool" where
  "IsZeroStrongOwning cb = (strong_ref_counter cb = 0)"

definition GetWeakRefsCount :: "IControlBlock \<Rightarrow> 64 word" where
  "GetWeakRefsCount cb = weak_ref_counter cb"

definition AddWeakRef :: "IControlBlock \<Rightarrow> IControlBlock" where
  "AddWeakRef cb = cb\<lparr>weak_ref_counter := weak_ref_counter cb + 1\<rparr>"

definition RemoveWeakRef :: "IControlBlock \<Rightarrow> IControlBlock" where
  "RemoveWeakRef cb = cb\<lparr>weak_ref_counter := weak_ref_counter cb - 1\<rparr>"

definition IsZeroWeakOwning :: "IControlBlock \<Rightarrow> bool" where
  "IsZeroWeakOwning cb = (weak_ref_counter cb = 0)"

text \<open>The calls \<open>cblock_->AddStrongRef()\<close> and \<open>cblock_->AddWeakRef()\<close>.\<close>

definition cblock_AddStrongRef :: "addr \<Rightarrow> heap \<Rightarrow> error + heap" where
  "cblock_AddStrongRef a s = bindE (load_cb s a) (\<lambda>cb. Inr (store_cb a (AddStrongRef cb) s))"

definition cblock_AddWeakRef :: "addr \<Rightarrow> heap \<Rightarrow> error + heap" where
  "cblock_AddWeakRef a s = bindE (load_cb s a) (\<lambda>cb. Inr (store_cb a (AddWeakRef cb) s))"

text \<open>
  \<open>Destroy\<close> is \<open>delete this\<close>: the block leaves the heap, and with it the storage a
  \<open>ControlBlockHolder\<close> has inside. Neither destructor touches the managed object.
\<close>

definition Destroy :: "addr \<Rightarrow> heap \<Rightarrow> error + heap" where
  "Destroy a s =
     (case cblocks s a of
        None \<Rightarrow> Inl DanglingAccess
      | Some cb \<Rightarrow>
          Inr (s\<lparr>cblocks := (cblocks s)(a := None),
                 objs := (objs s)(Storage a := None),
                 trace := trace s @
                   [DestroyCall a (strong_ref_counter cb) (weak_ref_counter cb)]\<rparr>))"

lemma bindE_Inl [simp]: "bindE (Inl e) f = Inl e"
  by (simp add: bindE_def)

lemma bindE_Inr [simp]: "bindE (Inr x) f = f x"
  by (simp add: bindE_def)

section \<open>WeakPtr: counters and release\<close>

definition WeakPtr_Zeroing :: WeakPtr where
  "WeakPtr_Zeroing = \<lparr>wp_ptr = NullPtr, wp_cblock = None\<rparr>"

definition WeakPtr_Release :: "WeakPtr \<Rightarrow> heap \<Rightarrow> error + (WeakPtr \<times> heap)" where
  "WeakPtr_Release w s =
     (case wp_cblock w of
        None \<Rightarrow> Inr (WeakPtr_Zeroing, s)
      | Some a \<Rightarrow>
          bindE (load_cb s a) (\<lambda>cb.
            let s1 = store_cb a (RemoveWeakRef cb) s in
            bindE (load_cb s1 a) (\<lambda>cb1.
              if IsZeroStrongOwning cb1 \<and> IsZeroWeakOwning cb1
              then bindE (Destroy a s1) (\<lambda>s2. Inr (WeakPtr_Zeroing, s2))
              else Inr (WeakPtr_Zeroing, s1))))"

definition WeakPtr_Reset :: "WeakPtr \<Rightarrow> heap \<Rightarrow> error + (WeakPtr \<times> heap)" where
  "WeakPtr_Reset w s = WeakPtr_Release w s"

definition WeakPtr_UseCount :: "WeakPtr \<Rightarrow> heap \<Rightarrow> error + 64 word" where
  "WeakPtr_UseCount w s =
     (case wp_cblock w of
        None \<Rightarrow> Inr 0
      | Some a \<Rightarrow> bindE (load_cb s a) (\<lambda>cb. Inr (GetStrongRefsCount cb)))"

definition WeakPtr_Expired :: "WeakPtr \<Rightarrow> heap \<Rightarrow> error + bool" where
  "WeakPtr_Expired w s = bindE (WeakPtr_UseCount w s) (\<lambda>n. Inr (n = 0))"

text \<open>
  A store into a field of the object at \<open>p\<close>: undefined once the object's storage has
  been freed.
\<close>

definition write_weak_this :: "raw_ptr \<Rightarrow> WeakPtr \<Rightarrow> heap \<Rightarrow> error + heap" where
  "write_weak_this p w s =
     (case objs s p of
        None \<Rightarrow> Inl DanglingAccess
      | Some _ \<Rightarrow> Inr (s\<lparr>objs := (objs s)(p \<mapsto> w)\<rparr>))"

section \<open>Dispose\<close>

text \<open>
  The destructor of the managed object runs the destructor of its \<open>weak_this_\<close>
  member (\<open>~WeakPtr\<close> is \<open>Release\<close>); then the object is gone.
\<close>

definition destroy_object :: "raw_ptr \<Rightarrow> heap \<Rightarrow> error + heap" where
  "destroy_object p s =
     (case objs s p of
        None \<Rightarrow> Inl DanglingAccess
      | Some wt \<Rightarrow>
          bindE (WeakPtr_Release wt s) (\<lambda>(wt', s1).
            bindE (write_weak_this p wt' s1) (\<lambda>s2.
              Inr (s2\<lparr>objs := (objs s2)(p := None)\<rparr>))))"

text \<open>
  \<open>ControlBlockPtr::Dispose\<close> is \<open>delete ptr_\<close> (nothing for a null pointer);
  \<open>ControlBlockHolder::Dispose\<close> is \<open>std::destroy_at\<close> on the storage.
\<close>

definition Dispose :: "addr \<Rightarrow> heap \<Rightarrow> error + heap" where
  "Dispose a s =
     (case cblocks s a of
        None \<Rightarrow> Inl DanglingAccess
      | Some cb \<Rightarrow>
          (let s0 = s\<lparr>trace := trace s @ [DisposeCall a (strong_ref_counter cb)]\<rparr>
           in case variant cb of
                ControlBlockPtr p \<Rightarrow> if p = NullPtr then Inr s0 else destroy_object p s0
              | ControlBlockHolder \<Rightarrow> destroy_object (Storage a) s0))"

text \<open>
  \<open>new ControlBlockPtr<T>(ptr)\<close>: the constructor counts a strong reference only for
  a pointer that is not null.
\<close>

definition new_ControlBlockPtr :: "raw_ptr \<Rightarrow> heap \<Rightarrow> addr \<times> heap" where
  "new_ControlBlockPtr p s =
     (let a = next_addr s;
          cb0 = \<lparr>strong_ref_counter = 0, weak_ref_counter = 0, variant = ControlBlockPtr p\<rparr>;
          cb = (if p \<noteq> NullPtr then AddStrongRef cb0 else cb0)
      in (a, s\<lparr>cblocks := (cblocks s)(a \<mapsto> cb),
               next_addr := Suc a,
               trace := trace s @ [AllocBlock a (ControlBlockPtr p)]\<rparr>))"

text \<open>
  \<open>new ControlBlockHolder<T>(args...)\<close>. The allocation gives the block its address, with
  both counters at 0 and the storage for the object. The body of the constructor then
  runs \<open>new(&storage_) T(args...)\<close> and, when that returns, \<open>AddStrongRef()\<close>.

  The constructor of \<open>T\<close> is not code of the subsystem: it is a parameter, a function of
  the argument list, of the address of the storage and of the heap, which may allocate
  and may throw. What the subsystem itself contributes to the new object is the
  default-constructed \<open>weak_this_\<close>. An exception of the constructor leaves
  \<open>new ControlBlockHolder\<close>, so \<open>AddStrongRef\<close> is not reached and nothing is returned.
\<close>

type_synonym 'args constructor = "'args \<Rightarrow> raw_ptr \<Rightarrow> heap \<Rightarrow> error + heap"

definition allocate_holder :: "heap \<Rightarrow> addr \<times> heap" where
  "allocate_holder s =
     (let a = next_addr s;
          cb0 = \<lparr>strong_ref_counter = 0, weak_ref_counter = 0, variant = ControlBlockHolder\<rparr>
      in (a, s\<lparr>cblocks := (cblocks s)(a \<mapsto> cb0),
               objs := (objs s)(Storage a \<mapsto> WeakPtr_Zeroing),
               next_addr := Suc a,
               trace := trace s @ [AllocBlock a ControlBlockHolder]\<rparr>))"

definition new_ControlBlockHolder :: "'args constructor \<Rightarrow> 'args \<Rightarrow> heap \<Rightarrow> error + (addr \<times> heap)" where
  "new_ControlBlockHolder T_ctor args s =
     (let (a, s1) = allocate_holder s in
      bindE (T_ctor args (Storage a) s1) (\<lambda>s2.
      bindE (cblock_AddStrongRef a s2) (\<lambda>s3. Inr (a, s3))))"

text \<open>A constructor that takes no argument, allocates nothing and does not throw.\<close>

definition T_default :: "unit constructor" where
  "T_default args p s = Inr s"

definition GetPtr :: "addr \<Rightarrow> raw_ptr" where
  "GetPtr a = Storage a"

section \<open>WeakPtr: assignment from a SharedPtr\<close>

text \<open>
  \<open>WeakPtr::operator=(SharedPtr<Y>& other)\<close>, the overload that
  \<open>weak_this_ = *this\<close> selects: release, take both fields, count a weak reference.
\<close>

definition WeakPtr_assign_shared :: "WeakPtr \<Rightarrow> SharedPtr \<Rightarrow> heap \<Rightarrow> error + (WeakPtr \<times> heap)" where
  "WeakPtr_assign_shared w other s =
     bindE (WeakPtr_Release w s) (\<lambda>(_, s1).
       let w' = \<lparr>wp_ptr = sp_ptr other, wp_cblock = sp_cblock other\<rparr> in
       case sp_cblock other of
         None \<Rightarrow> Inr (w', s1)
       | Some a \<Rightarrow> bindE (cblock_AddWeakRef a s1) (\<lambda>s2. Inr (w', s2)))"

section \<open>SharedPtr\<close>

text \<open>
  The parameter \<open>esft\<close> of the operations below is the compile-time test
  \<open>std::is_convertible_v<T *, ESFTBase *>\<close>: whether the pointee type derives from
  \<open>EnableSharedFromThis\<close>.
\<close>

definition SharedPtr_Zeroing :: SharedPtr where
  "SharedPtr_Zeroing = \<lparr>sp_ptr = NullPtr, sp_cblock = None\<rparr>"

text \<open>The statement \<open>p->weak_this_ = *this\<close> of the constructors.\<close>

definition set_weak_this :: "raw_ptr \<Rightarrow> SharedPtr \<Rightarrow> heap \<Rightarrow> error + heap" where
  "set_weak_this p this s =
     (if p = NullPtr then Inl NullDereference
      else case objs s p of
             None \<Rightarrow> Inl DanglingAccess
           | Some wt \<Rightarrow>
               bindE (WeakPtr_assign_shared wt this s) (\<lambda>(wt', s1). write_weak_this p wt' s1))"

text \<open>
  The first statement of \<open>Release\<close> for such a type:
  \<open>if (!ptr_->weak_this_.Expired()) ptr_->weak_this_.Reset();\<close>
\<close>

definition clear_weak_this :: "raw_ptr \<Rightarrow> heap \<Rightarrow> error + heap" where
  "clear_weak_this p s =
     (if p = NullPtr then Inl NullDereference
      else case objs s p of
             None \<Rightarrow> Inl DanglingAccess
           | Some wt \<Rightarrow>
               bindE (WeakPtr_Expired wt s) (\<lambda>expired.
                 if \<not> expired
                 then bindE (WeakPtr_Reset wt s) (\<lambda>(wt', s1). write_weak_this p wt' s1)
                 else Inr s))"

definition SharedPtr_Release :: "bool \<Rightarrow> SharedPtr \<Rightarrow> heap \<Rightarrow> error + (SharedPtr \<times> heap)" where
  "SharedPtr_Release esft this s =
     (case sp_cblock this of
        None \<Rightarrow> Inr (SharedPtr_Zeroing, s)
      | Some a \<Rightarrow>
          bindE (if esft then clear_weak_this (sp_ptr this) s else Inr s) (\<lambda>s1.
          bindE (load_cb s1 a) (\<lambda>cb.
            let s2 = store_cb a (RemoveStrongRef cb) s1 in
            bindE (load_cb s2 a) (\<lambda>cb2.
            bindE (if IsZeroStrongOwning cb2 then Dispose a s2 else Inr s2) (\<lambda>s3.
            bindE (load_cb s3 a) (\<lambda>cb3.
              if IsZeroStrongOwning cb3 \<and> IsZeroWeakOwning cb3
              then bindE (Destroy a s3) (\<lambda>s4. Inr (SharedPtr_Zeroing, s4))
              else Inr (SharedPtr_Zeroing, s3)))))))"

text \<open>\<open>SharedPtr()\<close> and \<open>SharedPtr(std::nullptr_t)\<close>.\<close>

definition SharedPtr_ctor_default :: SharedPtr where
  "SharedPtr_ctor_default = \<lparr>sp_ptr = NullPtr, sp_cblock = None\<rparr>"

text \<open>\<open>explicit SharedPtr(Y *ptr)\<close>: adopt a raw pointer.\<close>

definition SharedPtr_ctor_raw :: "bool \<Rightarrow> raw_ptr \<Rightarrow> heap \<Rightarrow> error + (SharedPtr \<times> heap)" where
  "SharedPtr_ctor_raw esft ptr s =
     (let (a, s1) = new_ControlBlockPtr ptr s;
          this = \<lparr>sp_ptr = ptr, sp_cblock = Some a\<rparr>
      in bindE (if esft then set_weak_this ptr this s1 else Inr s1) (\<lambda>s2. Inr (this, s2)))"

text \<open>\<open>SharedPtr(const SharedPtr &other)\<close>, and the template with the same body.\<close>

definition SharedPtr_ctor_copy :: "bool \<Rightarrow> SharedPtr \<Rightarrow> heap \<Rightarrow> error + (SharedPtr \<times> heap)" where
  "SharedPtr_ctor_copy esft other s =
     (let this = \<lparr>sp_ptr = sp_ptr other, sp_cblock = sp_cblock other\<rparr> in
      bindE (case sp_cblock this of
               None \<Rightarrow> Inr s
             | Some a \<Rightarrow> cblock_AddStrongRef a s) (\<lambda>s1.
      bindE (if esft then set_weak_this (sp_ptr other) this s1 else Inr s1) (\<lambda>s2.
        Inr (this, s2))))"

text \<open>
  \<open>SharedPtr(SharedPtr<Y> &&other)\<close>: the result is the new pointer and the moved-from
  \<open>other\<close>.
\<close>

definition SharedPtr_ctor_move :: "bool \<Rightarrow> SharedPtr \<Rightarrow> heap \<Rightarrow> error + (SharedPtr \<times> SharedPtr \<times> heap)" where
  "SharedPtr_ctor_move esft other s =
     (let this = \<lparr>sp_ptr = sp_ptr other, sp_cblock = sp_cblock other\<rparr> in
      bindE (if esft then set_weak_this (sp_ptr other) this s else Inr s) (\<lambda>s1.
        Inr (this, SharedPtr_Zeroing, s1)))"

text \<open>\<open>SharedPtr(ControlBlockHolder<Y> *cblock_holder)\<close>, the constructor \<open>MakeShared\<close> uses.\<close>

definition SharedPtr_ctor_holder :: "bool \<Rightarrow> addr \<Rightarrow> heap \<Rightarrow> error + (SharedPtr \<times> heap)" where
  "SharedPtr_ctor_holder esft cblock_holder s =
     (let this = \<lparr>sp_ptr = GetPtr cblock_holder, sp_cblock = Some cblock_holder\<rparr> in
      bindE (if esft then set_weak_this (sp_ptr this) this s else Inr s) (\<lambda>s1. Inr (this, s1)))"

text \<open>The aliasing constructor \<open>SharedPtr(const SharedPtr<Y> &other, T *ptr)\<close>.\<close>

definition SharedPtr_ctor_alias :: "SharedPtr \<Rightarrow> raw_ptr \<Rightarrow> heap \<Rightarrow> error + (SharedPtr \<times> heap)" where
  "SharedPtr_ctor_alias other ptr s =
     (let this = \<lparr>sp_ptr = ptr, sp_cblock = sp_cblock other\<rparr> in
      case sp_cblock this of
        None \<Rightarrow> Inr (this, s)
      | Some a \<Rightarrow> bindE (cblock_AddStrongRef a s) (\<lambda>s1. Inr (this, s1)))"

text \<open>
  Promotion, \<open>explicit SharedPtr(const WeakPtr<T> &other)\<close>: throws \<open>BadWeakPtr\<close> when
  \<open>other.Expired()\<close>.
\<close>

definition SharedPtr_ctor_weak :: "WeakPtr \<Rightarrow> heap \<Rightarrow> error + (SharedPtr \<times> heap)" where
  "SharedPtr_ctor_weak other s =
     bindE (WeakPtr_Expired other s) (\<lambda>expired.
       if expired then Inl BadWeakPtr
       else let this = \<lparr>sp_ptr = wp_ptr other, sp_cblock = wp_cblock other\<rparr> in
            case sp_cblock this of
              None \<Rightarrow> Inl NullDereference
            | Some a \<Rightarrow> bindE (cblock_AddStrongRef a s) (\<lambda>s1. Inr (this, s1)))"

text \<open>
  The two assignment operators. \<open>same\<close> is the test \<open>this == &other\<close>; the move
  assignment returns the new \<open>*this\<close> and the moved-from \<open>other\<close>.
\<close>

definition SharedPtr_assign_copy :: "bool \<Rightarrow> bool \<Rightarrow> SharedPtr \<Rightarrow> SharedPtr \<Rightarrow> heap \<Rightarrow> error + (SharedPtr \<times> heap)" where
  "SharedPtr_assign_copy esft same this other s =
     (if same then Inr (this, s)
      else bindE (SharedPtr_Release esft this s) (\<lambda>(_, s1).
             let this' = \<lparr>sp_ptr = sp_ptr other, sp_cblock = sp_cblock other\<rparr> in
             case sp_cblock this' of
               None \<Rightarrow> Inr (this', s1)
             | Some a \<Rightarrow> bindE (cblock_AddStrongRef a s1) (\<lambda>s2. Inr (this', s2))))"

definition SharedPtr_assign_move :: "bool \<Rightarrow> bool \<Rightarrow> SharedPtr \<Rightarrow> SharedPtr \<Rightarrow> heap \<Rightarrow> error + (SharedPtr \<times> SharedPtr \<times> heap)" where
  "SharedPtr_assign_move esft same this other s =
     (if same then Inr (this, other, s)
      else bindE (SharedPtr_Release esft this s) (\<lambda>(_, s1).
             Inr (\<lparr>sp_ptr = sp_ptr other, sp_cblock = sp_cblock other\<rparr>, SharedPtr_Zeroing, s1)))"

text \<open>The destructor \<open>~SharedPtr\<close> and \<open>Reset()\<close> are both \<open>Release\<close>.\<close>

definition SharedPtr_dtor :: "bool \<Rightarrow> SharedPtr \<Rightarrow> heap \<Rightarrow> error + (SharedPtr \<times> heap)" where
  "SharedPtr_dtor esft this s = SharedPtr_Release esft this s"

definition SharedPtr_Reset :: "bool \<Rightarrow> SharedPtr \<Rightarrow> heap \<Rightarrow> error + (SharedPtr \<times> heap)" where
  "SharedPtr_Reset esft this s = SharedPtr_Release esft this s"

definition SharedPtr_Reset_ptr :: "bool \<Rightarrow> SharedPtr \<Rightarrow> raw_ptr \<Rightarrow> heap \<Rightarrow> error + (SharedPtr \<times> heap)" where
  "SharedPtr_Reset_ptr esft this ptr s =
     bindE (SharedPtr_Release esft this s) (\<lambda>(_, s1).
       let (a, s2) = new_ControlBlockPtr ptr s1 in
       Inr (\<lparr>sp_ptr = ptr, sp_cblock = Some a\<rparr>, s2))"

definition SharedPtr_Swap :: "SharedPtr \<Rightarrow> SharedPtr \<Rightarrow> SharedPtr \<times> SharedPtr" where
  "SharedPtr_Swap this other = (other, this)"

definition SharedPtr_Get :: "SharedPtr \<Rightarrow> raw_ptr" where
  "SharedPtr_Get this = sp_ptr this"

definition SharedPtr_UseCount :: "SharedPtr \<Rightarrow> heap \<Rightarrow> error + 64 word" where
  "SharedPtr_UseCount this s =
     (case sp_cblock this of
        None \<Rightarrow> Inr 0
      | Some a \<Rightarrow> bindE (load_cb s a) (\<lambda>cb. Inr (GetStrongRefsCount cb)))"

definition SharedPtr_bool :: "SharedPtr \<Rightarrow> bool" where
  "SharedPtr_bool this = (SharedPtr_Get this \<noteq> NullPtr)"

definition SharedPtr_eq :: "SharedPtr \<Rightarrow> SharedPtr \<Rightarrow> bool" where
  "SharedPtr_eq lhs rhs = (SharedPtr_Get lhs = SharedPtr_Get rhs)"

text \<open>\<open>MakeShared<T>(args...)\<close>: \<open>SharedPtr<T>(new ControlBlockHolder<T>(args...))\<close>.\<close>

definition MakeShared :: "bool \<Rightarrow> 'args constructor \<Rightarrow> 'args \<Rightarrow> heap \<Rightarrow> error + (SharedPtr \<times> heap)" where
  "MakeShared esft T_ctor args s =
     bindE (new_ControlBlockHolder T_ctor args s) (\<lambda>(a, s1). SharedPtr_ctor_holder esft a s1)"

section \<open>WeakPtr: constructors, assignment, Lock\<close>

definition WeakPtr_ctor_default :: WeakPtr where
  "WeakPtr_ctor_default = \<lparr>wp_ptr = NullPtr, wp_cblock = None\<rparr>"

definition WeakPtr_ctor_copy :: "WeakPtr \<Rightarrow> heap \<Rightarrow> error + (WeakPtr \<times> heap)" where
  "WeakPtr_ctor_copy other s =
     (let this = \<lparr>wp_ptr = wp_ptr other, wp_cblock = wp_cblock other\<rparr> in
      case wp_cblock this of
        None \<Rightarrow> Inr (this, s)
      | Some a \<Rightarrow> bindE (cblock_AddWeakRef a s) (\<lambda>s1. Inr (this, s1)))"

definition WeakPtr_ctor_move :: "WeakPtr \<Rightarrow> WeakPtr \<times> WeakPtr" where
  "WeakPtr_ctor_move other =
     (\<lparr>wp_ptr = wp_ptr other, wp_cblock = wp_cblock other\<rparr>, WeakPtr_Zeroing)"

text \<open>Demotion, \<open>WeakPtr(const SharedPtr<T> &other)\<close>.\<close>

definition WeakPtr_ctor_shared :: "SharedPtr \<Rightarrow> heap \<Rightarrow> error + (WeakPtr \<times> heap)" where
  "WeakPtr_ctor_shared other s =
     (let this = \<lparr>wp_ptr = sp_ptr other, wp_cblock = sp_cblock other\<rparr> in
      case wp_cblock this of
        None \<Rightarrow> Inr (this, s)
      | Some a \<Rightarrow> bindE (cblock_AddWeakRef a s) (\<lambda>s1. Inr (this, s1)))"

definition WeakPtr_assign_copy :: "bool \<Rightarrow> WeakPtr \<Rightarrow> WeakPtr \<Rightarrow> heap \<Rightarrow> error + (WeakPtr \<times> heap)" where
  "WeakPtr_assign_copy same this other s =
     (if same then Inr (this, s)
      else bindE (WeakPtr_Release this s) (\<lambda>(_, s1).
             let this' = \<lparr>wp_ptr = wp_ptr other, wp_cblock = wp_cblock other\<rparr> in
             case wp_cblock this' of
               None \<Rightarrow> Inr (this', s1)
             | Some a \<Rightarrow> bindE (cblock_AddWeakRef a s1) (\<lambda>s2. Inr (this', s2))))"

definition WeakPtr_assign_move :: "bool \<Rightarrow> WeakPtr \<Rightarrow> WeakPtr \<Rightarrow> heap \<Rightarrow> error + (WeakPtr \<times> WeakPtr \<times> heap)" where
  "WeakPtr_assign_move same this other s =
     (if same then Inr (this, other, s)
      else bindE (WeakPtr_Release this s) (\<lambda>(_, s1).
             Inr (\<lparr>wp_ptr = wp_ptr other, wp_cblock = wp_cblock other\<rparr>, WeakPtr_Zeroing, s1)))"

definition WeakPtr_dtor :: "WeakPtr \<Rightarrow> heap \<Rightarrow> error + (WeakPtr \<times> heap)" where
  "WeakPtr_dtor this s = WeakPtr_Release this s"

definition WeakPtr_Swap :: "WeakPtr \<Rightarrow> WeakPtr \<Rightarrow> WeakPtr \<times> WeakPtr" where
  "WeakPtr_Swap this other = (other, this)"

text \<open>\<open>Lock()\<close>: \<open>Expired() ? SharedPtr<T>() : SharedPtr<T>(*this)\<close>.\<close>

definition WeakPtr_Lock :: "WeakPtr \<Rightarrow> heap \<Rightarrow> error + (SharedPtr \<times> heap)" where
  "WeakPtr_Lock this s =
     bindE (WeakPtr_Expired this s) (\<lambda>expired.
       if expired then Inr (SharedPtr_ctor_default, s) else SharedPtr_ctor_weak this s)"

section \<open>EnableSharedFromThis\<close>

text \<open>The two members, called on the object at \<open>p\<close>.\<close>

definition SharedFromThis :: "raw_ptr \<Rightarrow> heap \<Rightarrow> error + (SharedPtr \<times> heap)" where
  "SharedFromThis p s =
     (if p = NullPtr then Inl NullDereference
      else case objs s p of
             None \<Rightarrow> Inl DanglingAccess
           | Some wt \<Rightarrow> WeakPtr_Lock wt s)"

definition WeakFromThis :: "raw_ptr \<Rightarrow> heap \<Rightarrow> error + (WeakPtr \<times> heap)" where
  "WeakFromThis p s =
     (if p = NullPtr then Inl NullDereference
      else case objs s p of
             None \<Rightarrow> Inl DanglingAccess
           | Some wt \<Rightarrow> WeakPtr_ctor_copy wt s)"

section \<open>Programs over pointer variables\<close>

text \<open>
  A program declares \<open>SharedPtr<T>\<close> and \<open>WeakPtr<T>\<close> variables of one type \<open>T\<close> and
  applies the operations of the two classes to them. A configuration is the heap and
  the two lists of variables, in the order of their construction; an operation names
  its operands by position. A variable whose destructor has run stays in its list as
  the empty pointer \<open>Release\<close> leaves behind.
\<close>

record config =
  mem :: heap
  shared :: "SharedPtr list"
  weak :: "WeakPtr list"

definition init_config :: config where
  "init_config = \<lparr>mem = empty_heap, shared = [], weak = []\<rparr>"

datatype op =
  S_default
  | S_adopt_new
  | S_adopt_null
  | S_make
  | S_copy nat
  | S_move nat
  | S_alias nat raw_ptr
  | S_promote nat
  | S_assign nat nat
  | S_assign_move nat nat
  | S_reset nat
  | S_reset_new nat
  | S_reset_null nat
  | S_dtor nat
  | S_swap nat nat
  | W_default
  | W_copy nat
  | W_move nat
  | W_demote nat
  | W_assign nat nat
  | W_assign_shared nat nat
  | W_assign_move nat nat
  | W_reset nat
  | W_dtor nat
  | W_swap nat nat
  | W_lock nat
  | E_shared_from_this raw_ptr
  | E_weak_from_this raw_ptr
  | O_new

definition push_shared :: "config \<Rightarrow> SharedPtr \<times> heap \<Rightarrow> error + config" where
  "push_shared c r = Inr (c\<lparr>mem := snd r, shared := shared c @ [fst r]\<rparr>)"

definition set_shared :: "config \<Rightarrow> nat \<Rightarrow> SharedPtr \<times> heap \<Rightarrow> error + config" where
  "set_shared c i r = Inr (c\<lparr>mem := snd r, shared := (shared c)[i := fst r]\<rparr>)"

definition push_weak :: "config \<Rightarrow> WeakPtr \<times> heap \<Rightarrow> error + config" where
  "push_weak c r = Inr (c\<lparr>mem := snd r, weak := weak c @ [fst r]\<rparr>)"

definition set_weak :: "config \<Rightarrow> nat \<Rightarrow> WeakPtr \<times> heap \<Rightarrow> error + config" where
  "set_weak c i r = Inr (c\<lparr>mem := snd r, weak := (weak c)[i := fst r]\<rparr>)"

text \<open>
  One operation. \<open>S_adopt_new\<close> is \<open>SharedPtr<T> x(new T)\<close>, \<open>S_adopt_null\<close> is
  \<open>SharedPtr<T> x(static_cast<T *>(nullptr))\<close>, \<open>S_reset_new i\<close> is \<open>x.Reset(new T)\<close>.
  An operation on a variable that does not exist does nothing. \<open>S_promote\<close> catches
  \<open>BadWeakPtr\<close>: no variable is constructed then. \<open>O_new\<close> is a \<open>T\<close> object of the
  program's own (\<open>new T\<close>, kept as a raw pointer and never deleted), for an aliasing
  constructor to point to; the raw pointer operands name objects by their address, the
  object made at address \<open>n\<close> being \<open>HeapObj n\<close>.
\<close>

fun step :: "bool \<Rightarrow> op \<Rightarrow> config \<Rightarrow> error + config" where
  "step esft S_default c = push_shared c (SharedPtr_ctor_default, mem c)"
| "step esft S_adopt_new c =
     (let (p, s1) = new_object (mem c) in bindE (SharedPtr_ctor_raw esft p s1) (push_shared c))"
| "step esft S_adopt_null c = bindE (SharedPtr_ctor_raw esft NullPtr (mem c)) (push_shared c)"
| "step esft S_make c = bindE (MakeShared esft T_default () (mem c)) (push_shared c)"
| "step esft (S_copy i) c =
     (if i < length (shared c)
      then bindE (SharedPtr_ctor_copy esft (shared c ! i) (mem c)) (push_shared c)
      else Inr c)"
| "step esft (S_move i) c =
     (if i < length (shared c)
      then bindE (SharedPtr_ctor_move esft (shared c ! i) (mem c)) (\<lambda>(this, other, s).
             Inr (c\<lparr>mem := s, shared := (shared c)[i := other] @ [this]\<rparr>))
      else Inr c)"
| "step esft (S_alias i p) c =
     (if i < length (shared c)
      then bindE (SharedPtr_ctor_alias (shared c ! i) p (mem c)) (push_shared c)
      else Inr c)"
| "step esft (S_promote j) c =
     (if j < length (weak c)
      then (case SharedPtr_ctor_weak (weak c ! j) (mem c) of
              Inl e \<Rightarrow> if e = BadWeakPtr then Inr c else Inl e
            | Inr r \<Rightarrow> push_shared c r)
      else Inr c)"
| "step esft (S_assign i j) c =
     (if i < length (shared c) \<and> j < length (shared c)
      then bindE (SharedPtr_assign_copy esft (i = j) (shared c ! i) (shared c ! j) (mem c))
             (set_shared c i)
      else Inr c)"
| "step esft (S_assign_move i j) c =
     (if i < length (shared c) \<and> j < length (shared c)
      then bindE (SharedPtr_assign_move esft (i = j) (shared c ! i) (shared c ! j) (mem c))
             (\<lambda>(this, other, s). Inr (c\<lparr>mem := s, shared := (shared c)[j := other, i := this]\<rparr>))
      else Inr c)"
| "step esft (S_reset i) c =
     (if i < length (shared c)
      then bindE (SharedPtr_Reset esft (shared c ! i) (mem c)) (set_shared c i)
      else Inr c)"
| "step esft (S_reset_new i) c =
     (if i < length (shared c)
      then (let (p, s1) = new_object (mem c)
            in bindE (SharedPtr_Reset_ptr esft (shared c ! i) p s1) (set_shared c i))
      else Inr c)"
| "step esft (S_reset_null i) c =
     (if i < length (shared c)
      then bindE (SharedPtr_Reset_ptr esft (shared c ! i) NullPtr (mem c)) (set_shared c i)
      else Inr c)"
| "step esft (S_dtor i) c =
     (if i < length (shared c)
      then bindE (SharedPtr_dtor esft (shared c ! i) (mem c)) (set_shared c i)
      else Inr c)"
| "step esft (S_swap i j) c =
     (if i < length (shared c) \<and> j < length (shared c)
      then (let (this, other) = SharedPtr_Swap (shared c ! i) (shared c ! j)
            in Inr (c\<lparr>shared := (shared c)[i := this, j := other]\<rparr>))
      else Inr c)"
| "step esft W_default c = push_weak c (WeakPtr_ctor_default, mem c)"
| "step esft (W_copy j) c =
     (if j < length (weak c)
      then bindE (WeakPtr_ctor_copy (weak c ! j) (mem c)) (push_weak c)
      else Inr c)"
| "step esft (W_move j) c =
     (if j < length (weak c)
      then (let (this, other) = WeakPtr_ctor_move (weak c ! j)
            in Inr (c\<lparr>weak := (weak c)[j := other] @ [this]\<rparr>))
      else Inr c)"
| "step esft (W_demote i) c =
     (if i < length (shared c)
      then bindE (WeakPtr_ctor_shared (shared c ! i) (mem c)) (push_weak c)
      else Inr c)"
| "step esft (W_assign i j) c =
     (if i < length (weak c) \<and> j < length (weak c)
      then bindE (WeakPtr_assign_copy (i = j) (weak c ! i) (weak c ! j) (mem c)) (set_weak c i)
      else Inr c)"
| "step esft (W_assign_shared i j) c =
     (if i < length (weak c) \<and> j < length (shared c)
      then bindE (WeakPtr_assign_shared (weak c ! i) (shared c ! j) (mem c)) (set_weak c i)
      else Inr c)"
| "step esft (W_assign_move i j) c =
     (if i < length (weak c) \<and> j < length (weak c)
      then bindE (WeakPtr_assign_move (i = j) (weak c ! i) (weak c ! j) (mem c))
             (\<lambda>(this, other, s). Inr (c\<lparr>mem := s, weak := (weak c)[j := other, i := this]\<rparr>))
      else Inr c)"
| "step esft (W_reset i) c =
     (if i < length (weak c)
      then bindE (WeakPtr_Reset (weak c ! i) (mem c)) (set_weak c i)
      else Inr c)"
| "step esft (W_dtor i) c =
     (if i < length (weak c)
      then bindE (WeakPtr_dtor (weak c ! i) (mem c)) (set_weak c i)
      else Inr c)"
| "step esft (W_swap i j) c =
     (if i < length (weak c) \<and> j < length (weak c)
      then (let (this, other) = WeakPtr_Swap (weak c ! i) (weak c ! j)
            in Inr (c\<lparr>weak := (weak c)[i := this, j := other]\<rparr>))
      else Inr c)"
| "step esft (W_lock j) c =
     (if j < length (weak c)
      then bindE (WeakPtr_Lock (weak c ! j) (mem c)) (push_shared c)
      else Inr c)"
| "step esft (E_shared_from_this p) c =
     (if esft then bindE (SharedFromThis p (mem c)) (push_shared c) else Inr c)"
| "step esft (E_weak_from_this p) c =
     (if esft then bindE (WeakFromThis p (mem c)) (push_weak c) else Inr c)"
| "step esft O_new c = (let (p, s1) = new_object (mem c) in Inr (c\<lparr>mem := s1\<rparr>))"

fun run :: "bool \<Rightarrow> op list \<Rightarrow> config \<Rightarrow> error + config" where
  "run esft [] c = Inr c"
| "run esft (x # xs) c = bindE (step esft x c) (run esft xs)"

text \<open>
  The number of variables that refer to the control block at \<open>a\<close>: shared pointers,
  weak pointers, and the \<open>weak_this_\<close> members of the live objects.
\<close>

definition srefs :: "config \<Rightarrow> addr \<Rightarrow> nat" where
  "srefs c a = count_list (map sp_cblock (shared c)) (Some a)"

definition wrefs :: "config \<Rightarrow> addr \<Rightarrow> nat" where
  "wrefs c a = count_list (map wp_cblock (weak c)) (Some a)"

definition orefs :: "(raw_ptr \<rightharpoonup> WeakPtr) \<Rightarrow> addr \<Rightarrow> nat" where
  "orefs m a = card {p. \<exists>w. m p = Some w \<and> wp_cblock w = Some a}"

text \<open>The events of the trace that concern the address \<open>a\<close>.\<close>

fun event_addr :: "event \<Rightarrow> addr" where
  "event_addr (AllocBlock a v) = a"
| "event_addr (AllocObject a) = a"
| "event_addr (DisposeCall a n) = a"
| "event_addr (DestroyCall a n m) = a"

definition events_of :: "addr \<Rightarrow> heap \<Rightarrow> event list" where
  "events_of a s = filter (\<lambda>e. event_addr e = a) (trace s)"

text \<open>
  A control block made by \<open>MakeShared\<close> or from a pointer that is not null: the first
  event at its address is its allocation, and the variant is not a \<open>ControlBlockPtr\<close>
  with a null pointer.
\<close>

fun owning_alloc :: "event list \<Rightarrow> bool" where
  "owning_alloc (AllocBlock a v # es) = (v \<noteq> ControlBlockPtr NullPtr)"
| "owning_alloc es = False"

definition owning_block :: "heap \<Rightarrow> addr \<Rightarrow> bool" where
  "owning_block s a = owning_alloc (events_of a s)"

section \<open>Single operations\<close>

lemmas cb_defs =
  GetStrongRefsCount_def AddStrongRef_def RemoveStrongRef_def IsZeroStrongOwning_def
  GetWeakRefsCount_def AddWeakRef_def RemoveWeakRef_def IsZeroWeakOwning_def
  load_cb_def store_cb_def cblock_AddStrongRef_def cblock_AddWeakRef_def

lemma unat_minus_one_64: "unat (- 1 :: 64 word) = 2 ^ 64 - 1"
  by (simp add: unsigned_minus_1_eq_mask mask_eq_exp_minus_1)

text \<open>
  The spec's words for an expired weak pointer, to compare with \<open>WeakPtr::Expired\<close>:
  the control block is absent, or its strong count is zero.
\<close>

definition expired_as_specified :: "WeakPtr \<Rightarrow> heap \<Rightarrow> bool" where
  "expired_as_specified w s =
     (wp_cblock w = None \<or>
      (\<exists>a cb. wp_cblock w = Some a \<and> cblocks s a = Some cb \<and> strong_ref_counter cb = 0))"

text \<open>The number of heap allocations a trace records.\<close>

fun is_alloc :: "event \<Rightarrow> bool" where
  "is_alloc (AllocBlock a v) = True"
| "is_alloc (AllocObject a) = True"
| "is_alloc (DisposeCall a n) = False"
| "is_alloc (DestroyCall a n m) = False"

definition allocations :: "heap \<Rightarrow> nat" where
  "allocations s = length (filter is_alloc (trace s))"

text \<open>
  Two heaps for the examples. \<open>heap_plain\<close> is the heap after
  \<open>sp = MakeShared<T>(); w = WeakPtr<T>(sp)\<close> for a type without the capability;
  \<open>heap_esft\<close> is the heap after \<open>sp = MakeShared<T>()\<close> for a type that derives from
  \<open>EnableSharedFromThis\<close>. In both, \<open>sp\<close> is \<open>sp_first\<close>.
\<close>

definition sp_first :: SharedPtr where
  "sp_first = \<lparr>sp_ptr = Storage 0, sp_cblock = Some 0\<rparr>"

definition wp_first :: WeakPtr where
  "wp_first = \<lparr>wp_ptr = Storage 0, wp_cblock = Some 0\<rparr>"

definition heap_plain :: heap where
  "heap_plain =
     \<lparr>cblocks = [0 \<mapsto> \<lparr>strong_ref_counter = 1, weak_ref_counter = 1, variant = ControlBlockHolder\<rparr>],
      objs = [Storage 0 \<mapsto> WeakPtr_Zeroing],
      next_addr = 1,
      trace = [AllocBlock 0 ControlBlockHolder]\<rparr>"

definition heap_esft :: heap where
  "heap_esft =
     \<lparr>cblocks = [0 \<mapsto> \<lparr>strong_ref_counter = 1, weak_ref_counter = 1, variant = ControlBlockHolder\<rparr>],
      objs = [Storage 0 \<mapsto> wp_first],
      next_addr = 1,
      trace = [AllocBlock 0 ControlBlockHolder]\<rparr>"

lemma heap_plain_reached:
  "bindE (MakeShared False T_default () empty_heap)
     (\<lambda>(sp, s). bindE (WeakPtr_ctor_shared sp s) (\<lambda>(w, s'). Inr (sp, w, s')))
     = Inr (sp_first, wp_first, heap_plain)"
  by (simp add: MakeShared_def new_ControlBlockHolder_def allocate_holder_def T_default_def
      SharedPtr_ctor_holder_def GetPtr_def
      WeakPtr_ctor_shared_def empty_heap_def heap_plain_def sp_first_def wp_first_def cb_defs Let_def)

lemma heap_esft_reached: "MakeShared True T_default () empty_heap = Inr (sp_first, heap_esft)"
  by (simp add: MakeShared_def new_ControlBlockHolder_def allocate_holder_def T_default_def
      SharedPtr_ctor_holder_def GetPtr_def
      set_weak_this_def WeakPtr_assign_shared_def WeakPtr_Release_def WeakPtr_Zeroing_def
      write_weak_this_def empty_heap_def heap_esft_def sp_first_def wp_first_def cb_defs Let_def)

text \<open>
  C3. Promotion \<open>SharedPtr(const WeakPtr &)\<close> throws \<open>BadWeakPtr\<close> exactly when the weak
  pointer is expired (no control block, or a strong count of zero). From a weak pointer
  that is not expired it returns a shared pointer with the raw pointer and the control
  block of the weak pointer, and the strong count of the block is one more than before;
  nothing else in the heap changes.
\<close>

theorem promotion_throws_iff_expired:
  "(SharedPtr_ctor_weak w s = Inl BadWeakPtr) = expired_as_specified w s \<and>
   (\<forall>a cb. wp_cblock w = Some a \<and> cblocks s a = Some cb \<and> strong_ref_counter cb \<noteq> 0 \<longrightarrow>
      SharedPtr_ctor_weak w s =
        Inr (\<lparr>sp_ptr = wp_ptr w, sp_cblock = wp_cblock w\<rparr>,
             s\<lparr>cblocks := (cblocks s)
                  (a \<mapsto> cb\<lparr>strong_ref_counter := strong_ref_counter cb + 1\<rparr>)\<rparr>))"
  by (auto simp add: SharedPtr_ctor_weak_def WeakPtr_Expired_def WeakPtr_UseCount_def
      expired_as_specified_def cb_defs split: option.splits)

theorem promotion_throws_iff_expired_witness:
  "\<not> expired_as_specified wp_first heap_plain \<and>
   SharedPtr_ctor_weak wp_first heap_plain =
     Inr (sp_first,
          heap_plain\<lparr>cblocks := [0 \<mapsto> \<lparr>strong_ref_counter = 2, weak_ref_counter = 1,
                                        variant = ControlBlockHolder\<rparr>]\<rparr>) \<and>
   SharedPtr_ctor_weak WeakPtr_Zeroing heap_plain = Inl BadWeakPtr"
proof -
  have live: "wp_cblock wp_first = Some 0 \<and>
      cblocks heap_plain 0 =
        Some \<lparr>strong_ref_counter = 1, weak_ref_counter = 1, variant = ControlBlockHolder\<rparr> \<and>
      strong_ref_counter
        \<lparr>strong_ref_counter = 1, weak_ref_counter = 1, variant = ControlBlockHolder\<rparr> \<noteq> 0"
    by (simp add: wp_first_def heap_plain_def)
  have "expired_as_specified WeakPtr_Zeroing heap_plain"
    by (simp add: expired_as_specified_def WeakPtr_Zeroing_def)
  moreover have "\<not> expired_as_specified wp_first heap_plain"
    by (simp add: expired_as_specified_def wp_first_def heap_plain_def)
  ultimately show ?thesis
    using promotion_throws_iff_expired [of WeakPtr_Zeroing heap_plain]
      promotion_throws_iff_expired [of wp_first heap_plain, THEN conjunct2, rule_format, OF live]
    by (simp add: wp_first_def sp_first_def heap_plain_def)
qed

text \<open>
  C4. \<open>Lock\<close> never throws. On an expired weak pointer it returns the empty shared
  pointer and leaves the heap as it is; otherwise it returns a shared pointer with the
  control block (and the raw pointer) of the weak pointer, the strong count one more
  than before.
\<close>

theorem Lock_never_throws:
  "WeakPtr_Lock w s \<noteq> Inl BadWeakPtr \<and>
   (expired_as_specified w s \<longrightarrow>
      WeakPtr_Lock w s = Inr (\<lparr>sp_ptr = NullPtr, sp_cblock = None\<rparr>, s)) \<and>
   (\<forall>a cb. wp_cblock w = Some a \<and> cblocks s a = Some cb \<and> strong_ref_counter cb \<noteq> 0 \<longrightarrow>
      WeakPtr_Lock w s =
        Inr (\<lparr>sp_ptr = wp_ptr w, sp_cblock = wp_cblock w\<rparr>,
             s\<lparr>cblocks := (cblocks s)
                  (a \<mapsto> cb\<lparr>strong_ref_counter := strong_ref_counter cb + 1\<rparr>)\<rparr>))"
  by (auto simp add: WeakPtr_Lock_def SharedPtr_ctor_default_def SharedPtr_ctor_weak_def
      WeakPtr_Expired_def WeakPtr_UseCount_def expired_as_specified_def cb_defs
      split: option.splits)

theorem Lock_never_throws_witness:
  "WeakPtr_Lock wp_first heap_plain =
     Inr (sp_first,
          heap_plain\<lparr>cblocks := [0 \<mapsto> \<lparr>strong_ref_counter = 2, weak_ref_counter = 1,
                                        variant = ControlBlockHolder\<rparr>]\<rparr>) \<and>
   WeakPtr_Lock WeakPtr_Zeroing heap_plain =
     Inr (\<lparr>sp_ptr = NullPtr, sp_cblock = None\<rparr>, heap_plain)"
proof -
  have live: "wp_cblock wp_first = Some 0 \<and>
      cblocks heap_plain 0 =
        Some \<lparr>strong_ref_counter = 1, weak_ref_counter = 1, variant = ControlBlockHolder\<rparr> \<and>
      strong_ref_counter
        \<lparr>strong_ref_counter = 1, weak_ref_counter = 1, variant = ControlBlockHolder\<rparr> \<noteq> 0"
    by (simp add: wp_first_def heap_plain_def)
  have gone: "expired_as_specified WeakPtr_Zeroing heap_plain"
    by (simp add: expired_as_specified_def WeakPtr_Zeroing_def)
  show ?thesis
    using Lock_never_throws [of WeakPtr_Zeroing heap_plain, THEN conjunct2, THEN conjunct1,
        rule_format, OF gone]
      Lock_never_throws [of wp_first heap_plain, THEN conjunct2, THEN conjunct2,
        rule_format, OF live]
    by (simp add: wp_first_def sp_first_def heap_plain_def)
qed

text \<open>
  C7. Demotion \<open>WeakPtr(const SharedPtr &)\<close> from a shared pointer that has a control
  block: the weak pointer gets the raw pointer and the control block of the shared
  pointer, the weak count of the block is one more than before, and nothing else
  changes: the strong count is the same, and so is what \<open>UseCount\<close> of the shared
  pointer returns.
\<close>

theorem demotion_counts_weak_only:
  assumes "sp_cblock sp = Some a" and "cblocks s a = Some cb"
  shows "case WeakPtr_ctor_shared sp s of
           Inl e \<Rightarrow> False
         | Inr (w, s') \<Rightarrow>
             w = \<lparr>wp_ptr = sp_ptr sp, wp_cblock = sp_cblock sp\<rparr> \<and>
             s' = s\<lparr>cblocks := (cblocks s)
                      (a \<mapsto> cb\<lparr>weak_ref_counter := weak_ref_counter cb + 1\<rparr>)\<rparr> \<and>
             map_option strong_ref_counter (cblocks s' a) = Some (strong_ref_counter cb) \<and>
             SharedPtr_UseCount sp s' = SharedPtr_UseCount sp s"
  using assms
  by (simp add: WeakPtr_ctor_shared_def SharedPtr_UseCount_def cb_defs)

theorem demotion_counts_weak_only_witness:
  "WeakPtr_ctor_shared sp_first heap_esft =
     Inr (wp_first,
          heap_esft\<lparr>cblocks := [0 \<mapsto> \<lparr>strong_ref_counter = 1, weak_ref_counter = 2,
                                       variant = ControlBlockHolder\<rparr>]\<rparr>)"
proof -
  have "sp_cblock sp_first = Some 0"
    by (simp add: sp_first_def)
  moreover have "cblocks heap_esft 0 =
      Some \<lparr>strong_ref_counter = 1, weak_ref_counter = 1, variant = ControlBlockHolder\<rparr>"
    by (simp add: heap_esft_def)
  ultimately show ?thesis
    using demotion_counts_weak_only [of sp_first 0 heap_esft]
    by (auto simp add: sp_first_def wp_first_def heap_esft_def split: sum.splits)
qed

text \<open>
  C6, as the code has it. Let \<open>sp\<close> refer to a control block whose strong count is not
  zero, and for a type with the capability let \<open>sp\<close> point to a live object. The aliasing constructor
  from \<open>sp\<close> and any pointer \<open>p\<close> gives a shared pointer that observes \<open>p\<close> and has the
  control block of \<open>sp\<close>, the strong count one more. If \<open>sp\<close> is reset right after, the
  strong count is what it was at the start, so not zero; \<open>Dispose\<close> has not been called
  (the trace is the same) and no object has been destroyed.
\<close>

theorem aliasing_keeps_owner_alive:
  assumes "sp_cblock sp = Some a" and "cblocks s a = Some cb"
    and "strong_ref_counter cb \<noteq> 0"
    and "esft \<longrightarrow> sp_ptr sp \<noteq> NullPtr \<and>
           (\<exists>wt. objs s (sp_ptr sp) = Some wt \<and>
                 (\<forall>b. wp_cblock wt = Some b \<longrightarrow> cblocks s b \<noteq> None))"
  shows "case SharedPtr_ctor_alias sp p s of
           Inl e \<Rightarrow> False
         | Inr (al, s1) \<Rightarrow>
             al = \<lparr>sp_ptr = p, sp_cblock = Some a\<rparr> \<and>
             SharedPtr_UseCount al s1 = Inr (strong_ref_counter cb + 1) \<and>
             (case SharedPtr_Reset esft sp s1 of
                Inl e \<Rightarrow> False
              | Inr (sp', s2) \<Rightarrow>
                  sp' = SharedPtr_Zeroing \<and>
                  SharedPtr_UseCount al s2 = Inr (strong_ref_counter cb) \<and>
                  trace s2 = trace s \<and>
                  dom (objs s2) = dom (objs s))"
  using assms
  by (cases esft)
    (auto simp add: SharedPtr_ctor_alias_def SharedPtr_UseCount_def SharedPtr_Reset_def
      SharedPtr_Release_def cb_defs Let_def clear_weak_this_def WeakPtr_Expired_def
      WeakPtr_UseCount_def WeakPtr_Reset_def WeakPtr_Release_def write_weak_this_def
      neg_eq_iff_add_eq_0 add.commute split: option.splits)

theorem aliasing_keeps_owner_alive_witness:
  "case SharedPtr_ctor_alias sp_first (HeapObj 7) heap_esft of
     Inl e \<Rightarrow> False
   | Inr (al, s1) \<Rightarrow>
       al = \<lparr>sp_ptr = HeapObj 7, sp_cblock = Some 0\<rparr> \<and>
       SharedPtr_UseCount al s1 = Inr 2 \<and>
       (case SharedPtr_Reset True sp_first s1 of
          Inl e \<Rightarrow> False
        | Inr (sp', s2) \<Rightarrow>
            sp' = SharedPtr_Zeroing \<and>
            SharedPtr_UseCount al s2 = Inr 1 \<and>
            trace s2 = trace heap_esft \<and>
            dom (objs s2) = dom (objs heap_esft))"
proof -
  have 1: "sp_cblock sp_first = Some 0"
    by (simp add: sp_first_def)
  have 2: "cblocks heap_esft 0 =
      Some \<lparr>strong_ref_counter = 1, weak_ref_counter = 1, variant = ControlBlockHolder\<rparr>"
    by (simp add: heap_esft_def)
  have 3: "strong_ref_counter
      \<lparr>strong_ref_counter = 1, weak_ref_counter = 1, variant = ControlBlockHolder\<rparr> \<noteq> 0"
    by simp
  have 4: "True \<longrightarrow> sp_ptr sp_first \<noteq> NullPtr \<and>
      (\<exists>wt. objs heap_esft (sp_ptr sp_first) = Some wt \<and>
            (\<forall>b. wp_cblock wt = Some b \<longrightarrow> cblocks heap_esft b \<noteq> None))"
    by (simp add: sp_first_def heap_esft_def wp_first_def)
  show ?thesis
    using aliasing_keeps_owner_alive [OF 1 2 3 4, of "HeapObj 7"]
    by (simp cong: sum.case_cong prod.case_cong)
qed

text \<open>
  Three constructors for the examples: \<open>T_default\<close> above; one that makes a heap
  allocation of its own, as the constructor of a type with a member on the heap does;
  one that throws.
\<close>

definition T_with_member :: "unit constructor" where
  "T_with_member args p s = Inr (snd (new_object s))"

definition T_throwing :: "unit constructor" where
  "T_throwing args p s = Inl ConstructorThrew"

definition heap_member :: heap where
  "heap_member =
     \<lparr>cblocks = [0 \<mapsto> \<lparr>strong_ref_counter = 1, weak_ref_counter = 0, variant = ControlBlockHolder\<rparr>],
      objs = [Storage 0 \<mapsto> WeakPtr_Zeroing, HeapObj 1 \<mapsto> WeakPtr_Zeroing],
      next_addr = 2,
      trace = [AllocBlock 0 ControlBlockHolder, AllocObject 1]\<rparr>"

text \<open>
  C8, as the code has it. For every argument list and every constructor of \<open>T\<close>,
  \<open>MakeShared\<close> makes one heap allocation of its own, that of the
  \<open>ControlBlockHolder\<close>, which holds the two counters and the storage of the object; it is
  made before the constructor runs, and after the constructor has returned \<open>MakeShared\<close>
  allocates nothing (the trace stays the one the constructor left). So the allocations
  of a call are this one and those of the constructor. When the constructor throws,
  \<open>MakeShared\<close> throws the same and returns no pointer. When it returns, having left
  the counters of the new block and the \<open>weak_this_\<close> of the new object alone,
  \<open>MakeShared\<close> returns a shared pointer that observes the object in the storage of the
  block, with a \<open>UseCount\<close> of 1 (and a weak count of 1 for a type with the capability,
  whose \<open>weak_this_\<close> is set; 0 otherwise).
\<close>

theorem MakeShared_single_allocation:
  "allocations (snd (allocate_holder s)) = allocations s + 1 \<and>
   fst (allocate_holder s) = next_addr s \<and>
   (case T_ctor args (Storage (next_addr s)) (snd (allocate_holder s)) of
      Inl e \<Rightarrow> MakeShared esft T_ctor args s = Inl e
    | Inr s2 \<Rightarrow>
        cblocks s2 (next_addr s) = cblocks (snd (allocate_holder s)) (next_addr s) \<longrightarrow>
        objs s2 (Storage (next_addr s)) = objs (snd (allocate_holder s)) (Storage (next_addr s)) \<longrightarrow>
        (case MakeShared esft T_ctor args s of
           Inl e \<Rightarrow> False
         | Inr (sp, s') \<Rightarrow>
             sp = \<lparr>sp_ptr = Storage (next_addr s), sp_cblock = Some (next_addr s)\<rparr> \<and>
             trace s' = trace s2 \<and>
             allocations s' = allocations s2 \<and>
             next_addr s' = next_addr s2 \<and>
             cblocks s' (next_addr s) =
               Some \<lparr>strong_ref_counter = 1, weak_ref_counter = (if esft then 1 else 0),
                     variant = ControlBlockHolder\<rparr> \<and>
             SharedPtr_UseCount sp s' = Inr 1 \<and>
             SharedPtr_Get sp = GetPtr (next_addr s) \<and>
             objs s' (SharedPtr_Get sp) \<noteq> None))"
proof -
  let ?a = "next_addr s"
  define s1 where "s1 = snd (allocate_holder s)"
  have alloc: "allocate_holder s = (?a, s1)"
    by (simp add: s1_def allocate_holder_def Let_def)
  have one: "allocations s1 = allocations s + 1"
    by (simp add: s1_def allocate_holder_def allocations_def Let_def)
  have blk: "cblocks s1 ?a =
      Some \<lparr>strong_ref_counter = 0, weak_ref_counter = 0, variant = ControlBlockHolder\<rparr>"
    and obj: "objs s1 (Storage ?a) = Some WeakPtr_Zeroing"
    by (simp_all add: s1_def allocate_holder_def Let_def)
  have rest: "case T_ctor args (Storage ?a) s1 of
      Inl e \<Rightarrow> MakeShared esft T_ctor args s = Inl e
    | Inr s2 \<Rightarrow>
        cblocks s2 ?a = cblocks s1 ?a \<longrightarrow>
        objs s2 (Storage ?a) = objs s1 (Storage ?a) \<longrightarrow>
        (case MakeShared esft T_ctor args s of
           Inl e \<Rightarrow> False
         | Inr (sp, s') \<Rightarrow>
             sp = \<lparr>sp_ptr = Storage ?a, sp_cblock = Some ?a\<rparr> \<and>
             trace s' = trace s2 \<and>
             allocations s' = allocations s2 \<and>
             next_addr s' = next_addr s2 \<and>
             cblocks s' ?a =
               Some \<lparr>strong_ref_counter = 1, weak_ref_counter = (if esft then 1 else 0),
                     variant = ControlBlockHolder\<rparr> \<and>
             SharedPtr_UseCount sp s' = Inr 1 \<and>
             SharedPtr_Get sp = GetPtr ?a \<and>
             objs s' (SharedPtr_Get sp) \<noteq> None)"
  proof (cases "T_ctor args (Storage ?a) s1")
    case (Inl e)
    then show ?thesis
      by (simp add: MakeShared_def new_ControlBlockHolder_def alloc)
  next
    case (Inr s2)
    show ?thesis
    proof (cases "cblocks s2 ?a = cblocks s1 ?a \<and> objs s2 (Storage ?a) = objs s1 (Storage ?a)")
      case False
      then show ?thesis by (auto simp add: Inr)
    next
      case True
      with blk obj have b2: "cblocks s2 ?a =
          Some \<lparr>strong_ref_counter = 0, weak_ref_counter = 0, variant = ControlBlockHolder\<rparr>"
        and o2: "objs s2 (Storage ?a) = Some WeakPtr_Zeroing"
        by simp_all
      define s3 where "s3 = s2\<lparr>cblocks := (cblocks s2)(?a \<mapsto>
          \<lparr>strong_ref_counter = 1, weak_ref_counter = 0, variant = ControlBlockHolder\<rparr>)\<rparr>"
      have new: "new_ControlBlockHolder T_ctor args s = Inr (?a, s3)"
        by (simp add: new_ControlBlockHolder_def alloc Inr b2 cb_defs s3_def)
      let ?sp = "\<lparr>sp_ptr = Storage ?a, sp_cblock = Some ?a\<rparr>"
      define s4 where "s4 = s3\<lparr>cblocks := (cblocks s3)(?a \<mapsto>
            \<lparr>strong_ref_counter = 1, weak_ref_counter = 1, variant = ControlBlockHolder\<rparr>),
          objs := (objs s3)(Storage ?a \<mapsto> \<lparr>wp_ptr = Storage ?a, wp_cblock = Some ?a\<rparr>)\<rparr>"
      have hold: "SharedPtr_ctor_holder esft ?a s3 = Inr (?sp, if esft then s4 else s3)"
        using o2
        by (simp add: SharedPtr_ctor_holder_def GetPtr_def set_weak_this_def
            WeakPtr_assign_shared_def WeakPtr_Release_def WeakPtr_Zeroing_def
            write_weak_this_def cb_defs Let_def s3_def s4_def)
      have ms: "MakeShared esft T_ctor args s = Inr (?sp, if esft then s4 else s3)"
        by (simp add: MakeShared_def new hold)
      show ?thesis
        using o2 True
        by (simp add: Inr ms allocations_def SharedPtr_UseCount_def SharedPtr_Get_def GetPtr_def
            load_cb_def GetStrongRefsCount_def s3_def s4_def)
    qed
  qed
  have first: "fst (allocate_holder s) = next_addr s"
    by (simp add: alloc)
  show ?thesis
    using one first rest unfolding s1_def by (intro conjI) assumption+
qed

text \<open>
  \<open>MakeShared<T>()\<close> for a type with the capability and a constructor that allocates
  nothing: one allocation in all.
\<close>

theorem MakeShared_single_allocation_witness:
  "MakeShared True T_default () empty_heap = Inr (sp_first, heap_esft) \<and>
   allocations heap_esft = allocations empty_heap + 1 \<and>
   SharedPtr_UseCount sp_first heap_esft = Inr 1"
proof -
  have a: "allocations heap_esft = allocations empty_heap + 1"
    by (simp add: allocations_def heap_esft_def empty_heap_def)
  from MakeShared_single_allocation [where s = empty_heap and T_ctor = T_default and args = "()"
      and esft = True]
  have "SharedPtr_UseCount sp_first heap_esft = Inr 1"
    by (simp add: heap_esft_reached T_default_def)
  with a show ?thesis
    by (simp add: heap_esft_reached)
qed

text \<open>
  C8 as stated fails: the constructor of \<open>T\<close> runs inside \<open>MakeShared\<close>. With a
  constructor that allocates once, one call of \<open>MakeShared\<close> makes two heap allocations;
  with a constructor that throws, it returns no pointer.
\<close>

theorem MakeShared_constructor_allocates:
  "MakeShared False T_with_member () empty_heap = Inr (sp_first, heap_member) \<and>
   allocations heap_member = 2 \<and>
   MakeShared False T_throwing () empty_heap = Inl ConstructorThrew"
  by (simp add: MakeShared_def new_ControlBlockHolder_def allocate_holder_def T_with_member_def
      T_throwing_def new_object_def SharedPtr_ctor_holder_def GetPtr_def heap_member_def
      empty_heap_def sp_first_def allocations_def WeakPtr_Zeroing_def cb_defs Let_def)

text \<open>
  C9. The raw-pointer constructor with a null pointer (of a type without the capability)
  allocates a \<open>ControlBlockPtr\<close> whose strong count is 0. The destructor of that shared
  pointer then takes the count from 0 to \<open>2^64 - 1\<close>; no \<open>Dispose\<close> and no \<open>Destroy\<close> is
  called (the trace stays as it was after the constructor), and the block is still
  in the heap when the pointer is gone.
\<close>

theorem null_adoption_leaks_block:
  "case SharedPtr_ctor_raw False NullPtr s of
     Inl e \<Rightarrow> False
   | Inr (this, s1) \<Rightarrow>
       this = \<lparr>sp_ptr = NullPtr, sp_cblock = Some (next_addr s)\<rparr> \<and>
       cblocks s1 (next_addr s) =
         Some \<lparr>strong_ref_counter = 0, weak_ref_counter = 0,
               variant = ControlBlockPtr NullPtr\<rparr> \<and>
       trace s1 = trace s @ [AllocBlock (next_addr s) (ControlBlockPtr NullPtr)] \<and>
       (case SharedPtr_dtor False this s1 of
          Inl e \<Rightarrow> False
        | Inr (this', s2) \<Rightarrow>
            this' = SharedPtr_Zeroing \<and>
            cblocks s2 (next_addr s) =
              Some \<lparr>strong_ref_counter = - 1, weak_ref_counter = 0,
                    variant = ControlBlockPtr NullPtr\<rparr> \<and>
            map_option (\<lambda>cb. unat (strong_ref_counter cb)) (cblocks s2 (next_addr s)) =
              Some (2 ^ 64 - 1) \<and>
            trace s2 = trace s1)"
  by (simp add: SharedPtr_ctor_raw_def new_ControlBlockPtr_def SharedPtr_dtor_def
      SharedPtr_Release_def cb_defs Let_def unat_minus_one_64)

text \<open>
  C10. Copy construction from an empty shared pointer. For a type without the capability
  the result is empty and the heap, so every counter, is unchanged. For a type with the
  capability the constructor goes through the null \<open>other.ptr_\<close>.
\<close>

theorem copy_of_empty:
  "SharedPtr_ctor_copy False SharedPtr_ctor_default s = Inr (SharedPtr_ctor_default, s) \<and>
   SharedPtr_ctor_copy True SharedPtr_ctor_default s = Inl NullDereference"
  by (simp add: SharedPtr_ctor_copy_def SharedPtr_ctor_default_def set_weak_this_def)

text \<open>
  C5. The code at the failing input. \<open>sp1 = MakeShared<T>()\<close> for a type with the
  capability sets the object's \<open>weak_this_\<close>; so does the copy \<open>sp2 = sp1\<close>. After
  \<open>sp2.Reset()\<close> the object still has the owner \<open>sp1\<close> (its \<open>UseCount\<close> is 1), but
  \<open>weak_this_\<close> is empty and \<open>SharedFromThis()\<close> returns the empty pointer. Promotion
  from a weak pointer to the object then makes a second owner and leaves \<open>weak_this_\<close>
  empty.
\<close>

theorem weak_this_cleared_while_owned:
  "bindE (MakeShared True T_default () empty_heap) (\<lambda>(sp1, s1).
   bindE (SharedPtr_ctor_copy True sp1 s1) (\<lambda>(sp2, s2).
   bindE (SharedPtr_Reset True sp2 s2) (\<lambda>(sp2', s3).
   bindE (SharedFromThis (sp_ptr sp1) s3) (\<lambda>(self, _).
   bindE (WeakPtr_ctor_shared sp1 s3) (\<lambda>(wp, s4).
   bindE (SharedPtr_ctor_weak wp s4) (\<lambda>(sp3, s5).
     Inr (objs s1 (sp_ptr sp1), objs s2 (sp_ptr sp1),
          SharedPtr_UseCount sp1 s3, objs s3 (sp_ptr sp1), self,
          SharedPtr_UseCount sp3 s5, objs s5 (sp_ptr sp1))))))))
   = Inr (Some \<lparr>wp_ptr = Storage 0, wp_cblock = Some 0\<rparr>,
          Some \<lparr>wp_ptr = Storage 0, wp_cblock = Some 0\<rparr>,
          Inr 1, Some \<lparr>wp_ptr = NullPtr, wp_cblock = None\<rparr>,
          \<lparr>sp_ptr = NullPtr, sp_cblock = None\<rparr>,
          Inr 2, Some \<lparr>wp_ptr = NullPtr, wp_cblock = None\<rparr>)"
  by (simp add: MakeShared_def new_ControlBlockHolder_def allocate_holder_def T_default_def
      SharedPtr_ctor_holder_def GetPtr_def
      set_weak_this_def WeakPtr_assign_shared_def WeakPtr_Release_def WeakPtr_Zeroing_def
      write_weak_this_def SharedPtr_ctor_copy_def SharedPtr_Reset_def SharedPtr_Release_def
      clear_weak_this_def WeakPtr_Expired_def WeakPtr_UseCount_def WeakPtr_Reset_def
      SharedFromThis_def WeakPtr_Lock_def SharedPtr_ctor_default_def SharedPtr_Zeroing_def
      WeakPtr_ctor_shared_def SharedPtr_ctor_weak_def SharedPtr_UseCount_def
      empty_heap_def cb_defs Let_def)

section \<open>The invariant of a control block\<close>

lemma unat_inc64: "unat (x :: 64 word) + 1 < 2 ^ 64 \<Longrightarrow> unat (x + 1) = unat x + 1"
  using unat_add_lem [of x 1] by simp

lemma events_of_cblocks [simp]: "events_of a (s\<lparr>cblocks := m\<rparr>) = events_of a s"
  by (simp add: events_of_def)

lemma events_of_objs [simp]: "events_of a (s\<lparr>objs := m\<rparr>) = events_of a s"
  by (simp add: events_of_def)

lemma events_of_next_addr [simp]: "events_of a (s\<lparr>next_addr := n\<rparr>) = events_of a s"
  by (simp add: events_of_def)

lemma events_of_trace [simp]:
  "events_of a (s\<lparr>trace := t\<rparr>) = filter (\<lambda>e. event_addr e = a) t"
  by (simp add: events_of_def)

lemma filter_trace [simp]: "filter (\<lambda>e. event_addr e = a) (trace s) = events_of a s"
  by (simp add: events_of_def)

lemma owning_alloc_snoc: "es \<noteq> [] \<Longrightarrow> owning_alloc (es @ es') = owning_alloc es"
  by (cases es rule: owning_alloc.cases) simp_all

lemma owning_alloc_nonempty: "owning_alloc es \<Longrightarrow> es \<noteq> []"
  by (cases es) simp_all

text \<open>
  The state of one control block, for \<open>S\<close> strong and \<open>W\<close> weak references to it.
  An address that was not handed out yet has no block, no event and no reference. For a
  block made by \<open>MakeShared\<close> or from a pointer that is not null: while it is in the
  heap, its counters are \<open>S\<close> and \<open>W\<close> and \<open>Dispose\<close> was called (once, at a strong
  count of 0) exactly if \<open>S\<close> is 0; when it has left the heap, nothing refers to it and
  it has seen one \<open>Dispose\<close> and then one \<open>Destroy\<close>.
\<close>

definition ok :: "addr \<Rightarrow> heap \<Rightarrow> nat \<Rightarrow> nat \<Rightarrow> bool" where
  "ok a s S W \<longleftrightarrow>
     (next_addr s \<le> a \<longrightarrow> cblocks s a = None \<and> events_of a s = [] \<and> S = 0 \<and> W = 0) \<and>
     (owning_alloc (events_of a s) \<longrightarrow>
        (cblocks s a = None \<longrightarrow>
           S = 0 \<and> W = 0 \<and> tl (events_of a s) = [DisposeCall a 0, DestroyCall a 0 0]) \<and>
        (\<forall>cb. cblocks s a = Some cb \<longrightarrow>
           unat (strong_ref_counter cb) = S \<and> unat (weak_ref_counter cb) = W \<and>
           hd (events_of a s) = AllocBlock a (variant cb) \<and>
           tl (events_of a s) = (if S = 0 then [DisposeCall a 0] else [])))"

text \<open>
  The invariant of the heap. Every block is in the state above; a block that is in the
  heap is referred to, and the object in the storage of a \<open>ControlBlockHolder\<close> lives
  exactly until \<open>Dispose\<close>. The blocks in \<open>X\<close> are exempt from the last two: they are
  the ones a \<open>Release\<close> in progress is about to dispose or destroy.
\<close>

definition hinv :: "addr set \<Rightarrow> heap \<Rightarrow> (addr \<Rightarrow> nat) \<Rightarrow> (addr \<Rightarrow> nat) \<Rightarrow> bool" where
  "hinv X s S W \<longleftrightarrow>
     (\<forall>a. ok a s (S a) (W a)) \<and>
     (\<forall>a. a \<notin> X \<longrightarrow> owning_alloc (events_of a s) \<longrightarrow> cblocks s a \<noteq> None \<longrightarrow> 0 < S a + W a) \<and>
     (\<forall>a. objs s (Storage a) \<noteq> None \<longrightarrow>
          owning_alloc (events_of a s) \<and> hd (events_of a s) = AllocBlock a ControlBlockHolder \<and>
          (a \<notin> X \<longrightarrow> tl (events_of a s) = []))"

lemma ok_frame:
  "cblocks s' a = cblocks s a \<Longrightarrow> events_of a s' = events_of a s \<Longrightarrow> next_addr s' = next_addr s
   \<Longrightarrow> ok a s' S W = ok a s S W"
  by (simp add: ok_def)

lemma hinv_okD: "hinv X s S W \<Longrightarrow> ok a s (S a) (W a)"
  by (simp add: hinv_def)

lemma hinv_mono: "hinv X s S W \<Longrightarrow> X \<subseteq> Y \<Longrightarrow> hinv Y s S W"
  by (auto simp add: hinv_def)

text \<open>cblock_->AddStrongRef()\<close>

lemma AddStrongRef_hinv:
  assumes inv: "hinv X s S W"
    and run: "cblock_AddStrongRef b s = Inr s'"
    and pos: "owning_alloc (events_of b s) \<longrightarrow> 0 < S b \<and> S b + 1 < 2 ^ 64"
  shows "hinv X s' (S(b := S b + 1)) W"
proof -
  from run obtain cb where cb: "cblocks s b = Some cb"
    and s': "s' = s\<lparr>cblocks := (cblocks s)(b \<mapsto> AddStrongRef cb)\<rparr>"
    by (auto simp add: cblock_AddStrongRef_def load_cb_def store_cb_def split: option.splits)
  have okb: "ok b s' (S b + 1) (W b)"
    using hinv_okD [OF inv, of b] pos cb
    by (auto simp add: ok_def s' AddStrongRef_def unat_inc64)
  have oka: "\<And>a. a \<noteq> b \<Longrightarrow> ok a s' (S a) (W a)"
    using hinv_okD [OF inv] by (subst ok_frame [where s = s]) (simp_all add: s')
  show ?thesis
    using inv okb oka unfolding hinv_def
    by (auto simp add: s')
qed

lemma AddStrongRef_frame:
  "cblock_AddStrongRef b s = Inr s' \<Longrightarrow>
     objs s' = objs s \<and> next_addr s' = next_addr s \<and> trace s' = trace s \<and> cblocks s b \<noteq> None
     \<and> (\<forall>a. a \<noteq> b \<longrightarrow> cblocks s' a = cblocks s a)"
  by (auto simp add: cblock_AddStrongRef_def load_cb_def store_cb_def split: option.splits)


lemma AddWeakRef_hinv:
  assumes inv: "hinv X s S W"
    and run: "cblock_AddWeakRef b s = Inr s'"
    and pos: "owning_alloc (events_of b s) \<longrightarrow> W b + 1 < 2 ^ 64"
  shows "hinv X s' S (W(b := W b + 1))"
proof -
  from run obtain cb where cb: "cblocks s b = Some cb"
    and s': "s' = s\<lparr>cblocks := (cblocks s)(b \<mapsto> AddWeakRef cb)\<rparr>"
    by (auto simp add: cblock_AddWeakRef_def load_cb_def store_cb_def split: option.splits)
  have okb: "ok b s' (S b) (W b + 1)"
    using hinv_okD [OF inv, of b] pos cb
    by (auto simp add: ok_def s' AddWeakRef_def unat_inc64)
  have oka: "\<And>a. a \<noteq> b \<Longrightarrow> ok a s' (S a) (W a)"
    using hinv_okD [OF inv] by (subst ok_frame [where s = s]) (simp_all add: s')
  show ?thesis
    using inv okb oka unfolding hinv_def
    by (auto simp add: s')
qed

lemma AddWeakRef_frame:
  "cblock_AddWeakRef b s = Inr s' \<Longrightarrow>
     objs s' = objs s \<and> next_addr s' = next_addr s \<and> trace s' = trace s \<and> cblocks s b \<noteq> None
     \<and> (\<forall>a. a \<noteq> b \<longrightarrow> cblocks s' a = cblocks s a)"
  by (auto simp add: cblock_AddWeakRef_def load_cb_def store_cb_def split: option.splits)

lemma owning_alloc_snoc_call:
  "owning_alloc (es @ [DisposeCall a n]) = owning_alloc es"
  "owning_alloc (es @ [DestroyCall a n m]) = owning_alloc es"
  by (cases es rule: owning_alloc.cases; simp)+

text \<open>WeakPtr::Release\<close>

lemma WeakPtr_Release_cases:
  assumes "WeakPtr_Release w s = Inr (w', s')" and "wp_cblock w = Some b"
  obtains cb where "cblocks s b = Some cb"
      and "\<not> (strong_ref_counter cb = 0 \<and> weak_ref_counter cb - 1 = 0)"
      and "s' = s\<lparr>cblocks := (cblocks s)(b \<mapsto> RemoveWeakRef cb)\<rparr>"
  | cb where "cblocks s b = Some cb"
      and "strong_ref_counter cb = 0" and "weak_ref_counter cb - 1 = 0"
      and "s' = s\<lparr>cblocks := (cblocks s)(b := None), objs := (objs s)(Storage b := None),
                   trace := trace s @ [DestroyCall b 0 0]\<rparr>"
  using assms
  by (auto simp add: WeakPtr_Release_def Destroy_def cb_defs Let_def split: option.splits if_splits)

lemma WeakPtr_Release_hinv:
  assumes inv: "hinv X s S W"
    and run: "WeakPtr_Release w s = Inr (w', s')"
    and w: "wp_cblock w = Some b"
    and pos: "owning_alloc (events_of b s) \<longrightarrow> 0 < W b"
  shows "hinv X s' S (W(b := W b - 1))"
    and "owning_alloc (events_of b s') \<longrightarrow> cblocks s' b \<noteq> None \<longrightarrow> 0 < S b + (W b - 1)"
proof -
  have "hinv X s' S (W(b := W b - 1)) \<and>
        (owning_alloc (events_of b s') \<longrightarrow> cblocks s' b \<noteq> None \<longrightarrow> 0 < S b + (W b - 1))"
    using run w
  proof (cases rule: WeakPtr_Release_cases)
    case (1 cb)
    have wnz: "owning_alloc (events_of b s) \<Longrightarrow> weak_ref_counter cb \<noteq> 0"
      using hinv_okD [OF inv, of b] pos 1(1) by (auto simp add: ok_def)
    have okb: "ok b s' (S b) (W b - 1)"
      using hinv_okD [OF inv, of b] pos 1(1) wnz
      by (auto simp add: ok_def 1(3) RemoveWeakRef_def unat_minus_one)
    have oka: "\<And>a. a \<noteq> b \<Longrightarrow> ok a s' (S a) (W a)"
      using hinv_okD [OF inv] by (subst ok_frame [where s = s]) (simp_all add: 1(3))
    have nz: "owning_alloc (events_of b s') \<longrightarrow> 0 < S b + (W b - 1)"
      using hinv_okD [OF inv, of b] pos 1(1,2) wnz
      by (auto simp add: ok_def 1(3) unat_minus_one unat_eq_0 [symmetric] simp del: unat_eq_0)
    show ?thesis
      using inv okb oka nz unfolding hinv_def
      by (auto simp add: 1(3))
  next
    case (2 cb)
    have okb: "ok b s' (S b) (W b - 1)"
      using hinv_okD [OF inv, of b] pos 2(1,2,3)
      by (auto simp add: ok_def 2(4) owning_alloc_snoc_call
          owning_alloc_nonempty unat_eq_0 [symmetric] unat_minus_one simp del: unat_eq_0)
    have oka: "\<And>a. a \<noteq> b \<Longrightarrow> ok a s' (S a) (W a)"
      using hinv_okD [OF inv] by (subst ok_frame [where s = s]) (simp_all add: 2(4))
    show ?thesis
      using inv okb oka unfolding hinv_def
      by (auto simp add: 2(4) owning_alloc_snoc_call)
  qed
  then show "hinv X s' S (W(b := W b - 1))"
    and "owning_alloc (events_of b s') \<longrightarrow> cblocks s' b \<noteq> None \<longrightarrow> 0 < S b + (W b - 1)"
    by simp_all
qed

lemma hinv_objs_shrink:
  assumes "hinv X s S W" and "\<And>b. m (Storage b) \<noteq> None \<Longrightarrow> objs s (Storage b) \<noteq> None"
  shows "hinv X (s\<lparr>objs := m\<rparr>) S W"
proof -
  have "\<And>a. ok a (s\<lparr>objs := m\<rparr>) (S a) (W a)"
    using hinv_okD [OF assms(1)] by (subst ok_frame [where s = s]) simp_all
  then show ?thesis
    using assms unfolding hinv_def by auto
qed

lemma hinv_cong: "hinv X s S W \<Longrightarrow> (\<And>a. S' a = S a) \<Longrightarrow> (\<And>a. W' a = W a) \<Longrightarrow> hinv X s S' W'"
proof -
  assume h: "hinv X s S W" and 1: "\<And>a. S' a = S a" and 2: "\<And>a. W' a = W a"
  have "S' = S" "W' = W" using 1 2 by auto
  with h show ?thesis by simp
qed

text \<open>Allocation\<close>

lemma new_ControlBlockPtr_hinv:
  assumes inv: "hinv X s S W" and run: "new_ControlBlockPtr p s = (a, s')"
  shows "hinv X s' (S(a := 1)) W"
proof -
  from run have a: "a = next_addr s"
    and s': "s' = s\<lparr>cblocks := (cblocks s)(a \<mapsto>
                 \<lparr>strong_ref_counter = (if p \<noteq> NullPtr then 1 else 0), weak_ref_counter = 0,
                  variant = ControlBlockPtr p\<rparr>),
               next_addr := Suc a, trace := trace s @ [AllocBlock a (ControlBlockPtr p)]\<rparr>"
    by (auto simp add: new_ControlBlockPtr_def Let_def AddStrongRef_def)
  have fresh: "cblocks s a = None" "events_of a s = []" "S a = 0" "W a = 0"
    using hinv_okD [OF inv, of a] a by (simp_all add: ok_def)
  have okb: "ok a s' 1 (W a)"
    using fresh by (auto simp add: ok_def s')
  have oka: "\<And>a'. a' \<noteq> a \<Longrightarrow> ok a' s' (S a') (W a')"
    using hinv_okD [OF inv] a by (auto simp add: ok_def s')
  show ?thesis
    using inv okb oka fresh unfolding hinv_def
    by (auto simp add: s')
qed

lemma new_ControlBlockHolder_hinv:
  assumes inv: "hinv X s S W" and run: "new_ControlBlockHolder T_default () s = Inr (a, s')"
  shows "hinv X s' (S(a := 1)) W"
proof -
  from run have a: "a = next_addr s"
    and s': "s' = s\<lparr>cblocks := (cblocks s)(a \<mapsto>
                 \<lparr>strong_ref_counter = 1, weak_ref_counter = 0, variant = ControlBlockHolder\<rparr>),
               objs := (objs s)(Storage a \<mapsto> WeakPtr_Zeroing),
               next_addr := Suc a, trace := trace s @ [AllocBlock a ControlBlockHolder]\<rparr>"
    by (auto simp add: new_ControlBlockHolder_def allocate_holder_def T_default_def Let_def
        cblock_AddStrongRef_def load_cb_def store_cb_def AddStrongRef_def)
  have fresh: "cblocks s a = None" "events_of a s = []" "S a = 0" "W a = 0"
    using hinv_okD [OF inv, of a] a by (simp_all add: ok_def)
  have okb: "ok a s' 1 (W a)"
    using fresh by (auto simp add: ok_def s')
  have oka: "\<And>a'. a' \<noteq> a \<Longrightarrow> ok a' s' (S a') (W a')"
    using hinv_okD [OF inv] a by (auto simp add: ok_def s')
  show ?thesis
    using inv okb oka fresh unfolding hinv_def
    by (auto simp add: s')
qed

lemma new_object_hinv:
  assumes inv: "hinv X s S W" and run: "new_object s = (p, s')"
  shows "hinv X s' S W"
proof -
  from run have p: "p = HeapObj (next_addr s)"
    and s': "s' = s\<lparr>objs := (objs s)(p \<mapsto> \<lparr>wp_ptr = NullPtr, wp_cblock = None\<rparr>),
               next_addr := Suc (next_addr s), trace := trace s @ [AllocObject (next_addr s)]\<rparr>"
    by (auto simp add: new_object_def)
  have fresh: "cblocks s (next_addr s) = None" "events_of (next_addr s) s = []"
    using hinv_okD [OF inv, of "next_addr s"] by (simp_all add: ok_def)
  have oka: "\<And>a'. ok a' s' (S a') (W a')"
    using hinv_okD [OF inv] fresh by (auto simp add: ok_def s')
  show ?thesis
    using inv oka fresh unfolding hinv_def
    by (auto simp add: s' p)
qed

section \<open>References held by objects\<close>

text \<open>
  The objects whose \<open>weak_this_\<close> refers to the block at \<open>a\<close>; \<open>orefs\<close> counts them.
\<close>

definition refs_of :: "(raw_ptr \<rightharpoonup> WeakPtr) \<Rightarrow> addr \<Rightarrow> raw_ptr set" where
  "refs_of m a = {p. \<exists>w. m p = Some w \<and> wp_cblock w = Some a}"

lemma orefs_card: "orefs m a = card (refs_of m a)"
  by (simp add: orefs_def refs_of_def)

lemma refs_of_subset: "refs_of m a \<subseteq> dom m"
  by (auto simp add: refs_of_def)

lemma refs_of_finite: "finite (dom m) \<Longrightarrow> finite (refs_of m a)"
  using refs_of_subset finite_subset by blast

lemma orefs_le: "finite (dom m) \<Longrightarrow> orefs m a \<le> card (dom m)"
  by (simp add: orefs_card card_mono refs_of_subset)

lemma refs_of_upd:
  "refs_of (m(p \<mapsto> w)) a =
     (if wp_cblock w = Some a then insert p (refs_of m a) else refs_of m a - {p})"
  by (auto simp add: refs_of_def)

lemma refs_of_del: "refs_of (m(p := None)) a = refs_of m a - {p}"
  by (auto simp add: refs_of_def)

lemma orefs_del:
  assumes "finite (dom m)"
  shows "orefs (m(p := None)) a =
           orefs m a - (if \<exists>w. m p = Some w \<and> wp_cblock w = Some a then 1 else 0)"
proof -
  have "p \<in> refs_of m a \<longleftrightarrow> (\<exists>w. m p = Some w \<and> wp_cblock w = Some a)"
    by (simp add: refs_of_def)
  then show ?thesis
    using refs_of_finite [OF assms, of a]
    by (auto simp add: orefs_card refs_of_del)
qed

lemma orefs_upd:
  assumes "finite (dom m)"
  shows "orefs (m(p \<mapsto> w')) a =
           orefs m a - (if \<exists>w. m p = Some w \<and> wp_cblock w = Some a then 1 else 0)
             + (if wp_cblock w' = Some a then 1 else 0)"
proof -
  have in_iff: "p \<in> refs_of m a \<longleftrightarrow> (\<exists>w. m p = Some w \<and> wp_cblock w = Some a)"
    by (simp add: refs_of_def)
  have fin: "finite (refs_of m a)"
    by (rule refs_of_finite [OF assms])
  show ?thesis
  proof (cases "wp_cblock w' = Some a")
    case True
    then show ?thesis
      using fin in_iff
      by (auto simp add: orefs_card refs_of_upd card_insert_if card_gt_0_iff
          intro!: Suc_pred [symmetric])
  next
    case False
    then show ?thesis
      using fin in_iff by (auto simp add: orefs_card refs_of_upd)
  qed
qed

lemma orefs_pos:
  "finite (dom m) \<Longrightarrow> m p = Some w \<Longrightarrow> wp_cblock w = Some a \<Longrightarrow> 0 < orefs m a"
  using refs_of_finite [of m a]
  by (auto simp add: orefs_card card_gt_0_iff refs_of_def)

text \<open>No object lives at an address that was not handed out yet.\<close>

definition objs_fresh :: "heap \<Rightarrow> bool" where
  "objs_fresh s \<longleftrightarrow>
     (\<forall>a. next_addr s \<le> a \<longrightarrow> objs s (HeapObj a) = None \<and> objs s (Storage a) = None)"

lemma objs_fresh_sub:
  "objs_fresh s \<Longrightarrow> dom (objs s') \<subseteq> dom (objs s) \<Longrightarrow> next_addr s \<le> next_addr s'
     \<Longrightarrow> objs_fresh s'"
  unfolding objs_fresh_def by (meson domIff le_trans subsetD)

text \<open>
  The invariant with the weak references split into those held by variables (\<open>Wh\<close>)
  and those held by the \<open>weak_this_\<close> of objects. There are finitely many objects, no
  more than addresses handed out, which bounds the latter.
\<close>

definition Winv :: "addr set \<Rightarrow> heap \<Rightarrow> (addr \<Rightarrow> nat) \<Rightarrow> (addr \<Rightarrow> nat) \<Rightarrow> bool" where
  "Winv X s S Wh \<longleftrightarrow>
     finite (dom (objs s)) \<and> card (dom (objs s)) \<le> next_addr s \<and>
     objs_fresh s \<and>
     hinv X s S (\<lambda>a. Wh a + orefs (objs s) a)"

lemma WeakPtr_Release_none:
  "wp_cblock w = None \<Longrightarrow> WeakPtr_Release w s = Inr (WeakPtr_Zeroing, s)"
  by (simp add: WeakPtr_Release_def)

lemma WeakPtr_Release_frame:
  assumes inv: "hinv X s S W"
    and run: "WeakPtr_Release w s = Inr (w', s')"
    and w: "wp_cblock w = Some b"
  shows "w' = WeakPtr_Zeroing" and "next_addr s' = next_addr s"
    and "objs s' = objs s \<or> (b \<in> X \<and> objs s (Storage b) \<noteq> None \<and> objs s' = (objs s)(Storage b := None))"
proof -
  show "w' = WeakPtr_Zeroing"
    using run by (auto simp add: WeakPtr_Release_def Let_def bindE_def split: option.splits sum.splits if_splits)
  show "next_addr s' = next_addr s"
    using run w by (cases rule: WeakPtr_Release_cases) simp_all
  show "objs s' = objs s \<or> (b \<in> X \<and> objs s (Storage b) \<noteq> None \<and> objs s' = (objs s)(Storage b := None))"
    using run w
  proof (cases rule: WeakPtr_Release_cases)
    case (1 cb)
    then show ?thesis by simp
  next
    case (2 cb)
    show ?thesis
    proof (cases "objs s (Storage b) = None")
      case True
      then have "(objs s)(Storage b := None) = objs s" by auto
      then show ?thesis by (simp add: 2(4))
    next
      case False
      with inv have own: "owning_alloc (events_of b s)"
        and tl: "b \<notin> X \<longrightarrow> tl (events_of b s) = []"
        by (auto simp add: hinv_def)
      have "b \<in> X"
        using hinv_okD [OF inv, of b] own tl 2(1,2) by (auto simp add: ok_def)
      with False show ?thesis by (simp add: 2(4))
    qed
  qed
qed

lemma WeakPtr_Release_Zeroing:
  "WeakPtr_Release w s = Inr (w', s') \<Longrightarrow> w' = WeakPtr_Zeroing"
  by (auto simp add: WeakPtr_Release_def Let_def bindE_def split: option.splits sum.splits if_splits)

text \<open>Releasing the \<open>weak_this_\<close> stored in the object at \<open>p\<close>.\<close>

lemma release_stored:
  assumes inv: "Winv X s S Wh"
    and wt: "objs s p = Some wt"
    and rel: "WeakPtr_Release wt s = Inr (wt', s1)"
    and live: "objs s1 p \<noteq> None"
    and ex: "\<And>b. b \<in> X \<Longrightarrow> objs s (Storage b) \<noteq> None \<Longrightarrow> p = Storage b"
  shows "hinv X s1 S (\<lambda>a. Wh a + orefs ((objs s)(p := None)) a)"
    and "objs s1 = objs s" and "next_addr s1 = next_addr s"
proof -
  let ?W = "\<lambda>a. Wh a + orefs (objs s) a"
  from inv have fin: "finite (dom (objs s))" and h: "hinv X s S ?W"
    by (simp_all add: Winv_def)
  have "hinv X s1 S (\<lambda>a. Wh a + orefs ((objs s)(p := None)) a) \<and> objs s1 = objs s \<and>
        next_addr s1 = next_addr s"
  proof (cases "wp_cblock wt")
    case None
    then have "s1 = s"
      using rel by (simp add: WeakPtr_Release_none)
    moreover have "\<And>a. orefs ((objs s)(p := None)) a = orefs (objs s) a"
      using fin wt None by (simp add: orefs_del)
    ultimately show ?thesis
      using h by simp
  next
    case (Some b0)
    have pos: "0 < ?W b0"
      using orefs_pos [OF fin wt Some] by simp
    have h1: "hinv X s1 S (?W(b0 := ?W b0 - 1))"
      using WeakPtr_Release_hinv(1) [OF h rel Some] pos by simp
    have fr: "next_addr s1 = next_addr s"
      "objs s1 = objs s \<or> (b0 \<in> X \<and> objs s (Storage b0) \<noteq> None \<and> objs s1 = (objs s)(Storage b0 := None))"
      using WeakPtr_Release_frame [OF h rel Some] by simp_all
    have same: "objs s1 = objs s"
    proof (rule ccontr)
      assume "objs s1 \<noteq> objs s"
      with fr(2) have "b0 \<in> X" "objs s (Storage b0) \<noteq> None" "objs s1 = (objs s)(Storage b0 := None)"
        by auto
      with ex [of b0] live show False by simp
    qed
    have "hinv X s1 S (\<lambda>a. Wh a + orefs ((objs s)(p := None)) a)"
      using h1
    proof (rule hinv_cong)
      fix a
      show "Wh a + orefs ((objs s)(p := None)) a = (?W(b0 := ?W b0 - 1)) a"
        using fin wt Some orefs_pos [OF fin wt Some] by (auto simp add: orefs_del)
    qed simp
    with same fr(1) show ?thesis by simp
  qed
  then show "hinv X s1 S (\<lambda>a. Wh a + orefs ((objs s)(p := None)) a)"
    and "objs s1 = objs s" and "next_addr s1 = next_addr s"
    by simp_all
qed

lemma orefs_upd_del:
  assumes "finite (dom m)"
  shows "orefs (m(p \<mapsto> w')) a = orefs (m(p := None)) a + (if wp_cblock w' = Some a then 1 else 0)"
proof -
  have "finite (dom (m(p := None)))" using assms by simp
  from orefs_upd [OF this, of p w' a] show ?thesis by simp
qed

lemma destroy_object_Winv:
  assumes inv: "Winv X s S Wh"
    and run: "destroy_object p s = Inr s'"
    and ex: "\<And>b. b \<in> X \<Longrightarrow> objs s (Storage b) \<noteq> None \<Longrightarrow> p = Storage b"
  shows "Winv X s' S Wh" and "objs s' p = None" and "dom (objs s') \<subseteq> dom (objs s)"
    and "next_addr s' = next_addr s"
proof -
  from run obtain wt wt' s1 where wt: "objs s p = Some wt"
    and rel: "WeakPtr_Release wt s = Inr (wt', s1)"
    and live: "objs s1 p \<noteq> None"
    and s': "s' = s1\<lparr>objs := (objs s1)(p := None)\<rparr>"
    by (auto simp add: destroy_object_def write_weak_this_def bindE_def
        split: option.splits sum.splits)
  from inv have fin: "finite (dom (objs s))" and crd: "card (dom (objs s)) \<le> next_addr s"
    by (simp_all add: Winv_def)
  note mid = release_stored [OF inv wt rel live ex]
  have shrink: "hinv X s' S (\<lambda>a. Wh a + orefs ((objs s)(p := None)) a)"
    unfolding s' using mid by (intro hinv_objs_shrink) (auto split: if_splits)
  have objs': "objs s' = (objs s)(p := None)"
    using mid by (simp add: s')
  have "objs_fresh s'"
    using inv mid by (auto simp add: Winv_def objs_fresh_def objs' s')
  then show "Winv X s' S Wh"
    unfolding Winv_def objs'
    using shrink fin crd mid card_Diff1_le [of "dom (objs s)" p]
    by (simp add: objs' s')
  show "objs s' p = None" by (simp add: objs')
  show "dom (objs s') \<subseteq> dom (objs s)" by (auto simp add: objs')
  show "next_addr s' = next_addr s" using mid by (simp add: s')
qed

lemma clear_weak_this_Winv:
  assumes inv: "Winv {} s S Wh" and run: "clear_weak_this p s = Inr s'"
  shows "Winv {} s' S Wh" and "dom (objs s') = dom (objs s)" and "next_addr s' = next_addr s"
proof -
  from inv have fin: "finite (dom (objs s))" and crd: "card (dom (objs s)) \<le> next_addr s"
    by (simp_all add: Winv_def)
  have "Winv {} s' S Wh \<and> dom (objs s') = dom (objs s) \<and> next_addr s' = next_addr s"
  proof (cases "s' = s")
    case True
    with inv show ?thesis by simp
  next
    case False
    with run obtain wt wt' s1 where wt: "objs s p = Some wt"
      and rel: "WeakPtr_Release wt s = Inr (wt', s1)"
      and live: "objs s1 p \<noteq> None"
      and s': "s' = s1\<lparr>objs := (objs s1)(p \<mapsto> wt')\<rparr>"
      by (auto simp add: clear_weak_this_def write_weak_this_def WeakPtr_Reset_def bindE_def
          split: option.splits sum.splits if_splits)
    have z: "wt' = WeakPtr_Zeroing"
      using rel by (rule WeakPtr_Release_Zeroing)
    note mid = release_stored [OF inv wt rel live]
    have objs': "objs s' = (objs s)(p \<mapsto> WeakPtr_Zeroing)"
      using mid by (simp add: s' z)
    have "hinv {} (s1\<lparr>objs := (objs s)(p \<mapsto> WeakPtr_Zeroing)\<rparr>) S
            (\<lambda>a. Wh a + orefs ((objs s)(p := None)) a)"
      using mid wt by (intro hinv_objs_shrink) (auto split: if_splits)
    then have "hinv {} s' S (\<lambda>a. Wh a + orefs (objs s') a)"
      using mid by (simp add: s' z objs' orefs_upd_del [OF fin] WeakPtr_Zeroing_def)
    moreover have d: "dom (objs s') = dom (objs s)"
      using wt by (auto simp add: objs')
    moreover have "objs_fresh s'"
      using inv mid d by (auto simp add: Winv_def objs_fresh_def s')
    ultimately show ?thesis
      using fin crd mid by (simp add: Winv_def s')
  qed
  then show "Winv {} s' S Wh" and "dom (objs s') = dom (objs s)" and "next_addr s' = next_addr s"
    by simp_all
qed

lemma orefs_del_le: "finite (dom m) \<Longrightarrow> orefs (m(p := None)) a \<le> orefs m a"
  by (simp add: orefs_del)

lemma set_weak_this_Winv:
  assumes inv: "Winv {} s S Wh" and run: "set_weak_this p this s = Inr s'"
    and bound: "\<And>b. sp_cblock this = Some b \<Longrightarrow> Wh b + card (dom (objs s)) + 1 < 2 ^ 64"
  shows "Winv {} s' S Wh" and "dom (objs s') = dom (objs s)" and "next_addr s' = next_addr s"
proof -
  from inv have fin: "finite (dom (objs s))" and crd: "card (dom (objs s)) \<le> next_addr s"
    by (simp_all add: Winv_def)
  let ?w = "\<lparr>wp_ptr = sp_ptr this, wp_cblock = sp_cblock this\<rparr>"
  from run obtain wt wt' s1 s2 where wt: "objs s p = Some wt"
    and rel: "WeakPtr_Release wt s = Inr (wt', s1)"
    and add: "case sp_cblock this of None \<Rightarrow> s2 = s1 | Some b \<Rightarrow> cblock_AddWeakRef b s1 = Inr s2"
    and live2: "objs s2 p \<noteq> None"
    and s': "s' = s2\<lparr>objs := (objs s2)(p \<mapsto> ?w)\<rparr>"
    by (auto simp add: set_weak_this_def WeakPtr_assign_shared_def write_weak_this_def
        bindE_def Let_def split: option.splits sum.splits if_splits)
  have fr2: "objs s2 = objs s1 \<and> next_addr s2 = next_addr s1"
    using add AddWeakRef_frame by (auto split: option.splits)
  with live2 have live: "objs s1 p \<noteq> None" by simp
  note mid = release_stored [OF inv wt rel live]
  let ?W1 = "\<lambda>a. Wh a + orefs ((objs s)(p := None)) a"
  let ?W2 = "\<lambda>a. ?W1 a + (if sp_cblock this = Some a then 1 else 0)"
  have h2: "hinv {} s2 S ?W2"
  proof (cases "sp_cblock this")
    case None
    with add mid show ?thesis by simp
  next
    case (Some b)
    with add have a: "cblock_AddWeakRef b s1 = Inr s2" by simp
    have "?W1 b + 1 < 2 ^ 64"
      using bound [OF Some] orefs_del_le [OF fin, of p b] orefs_le [OF fin, of b]
      by linarith
    from AddWeakRef_hinv [OF mid(1) a] this have "hinv {} s2 S (?W1(b := ?W1 b + 1))"
      by simp
    then show ?thesis
      by (rule hinv_cong) (simp_all add: Some)
  qed
  have objs': "objs s' = (objs s)(p \<mapsto> ?w)"
    using mid fr2 by (simp add: s')
  have "hinv {} (s2\<lparr>objs := (objs s)(p \<mapsto> ?w)\<rparr>) S ?W2"
    using h2 mid fr2 wt by (intro hinv_objs_shrink) (auto split: if_splits)
  then have "hinv {} s' S (\<lambda>a. Wh a + orefs (objs s') a)"
    using mid fr2 by (simp add: s' objs' orefs_upd_del [OF fin] add.assoc)
  moreover have d: "dom (objs s') = dom (objs s)"
    using wt by (auto simp add: objs')
  moreover have "objs_fresh s'"
    using inv mid fr2 d by (auto simp add: Winv_def objs_fresh_def s')
  ultimately show "Winv {} s' S Wh"
    using fin crd mid fr2 by (simp add: Winv_def s')
  show "dom (objs s') = dom (objs s)" by (rule d)
  show "next_addr s' = next_addr s" using mid fr2 by (simp add: s')
qed

lemma hinv_close:
  assumes "hinv {b} s S W" and "objs s (Storage b) = None"
    and "owning_alloc (events_of b s) \<longrightarrow> cblocks s b \<noteq> None \<longrightarrow> 0 < S b + W b"
  shows "hinv {} s S W"
  using assms unfolding hinv_def by (metis (no_types, lifting) empty_iff insert_iff)

text \<open>The strong count goes down and stays above zero.\<close>

lemma RemoveStrongRef_hinv:
  assumes inv: "hinv {} s S W" and cb: "cblocks s b = Some cb" and pos: "0 < S b"
    and nz: "strong_ref_counter cb - 1 \<noteq> 0"
  shows "hinv {} (s\<lparr>cblocks := (cblocks s)(b \<mapsto> RemoveStrongRef cb)\<rparr>) (S(b := S b - 1)) W"
proof -
  let ?s = "s\<lparr>cblocks := (cblocks s)(b \<mapsto> RemoveStrongRef cb)\<rparr>"
  have snz: "owning_alloc (events_of b s) \<Longrightarrow> strong_ref_counter cb \<noteq> 0"
    using hinv_okD [OF inv, of b] pos cb by (auto simp add: ok_def)
  have okb: "ok b ?s (S b - 1) (W b)"
    using hinv_okD [OF inv, of b] pos cb nz snz
    by (auto simp add: ok_def RemoveStrongRef_def unat_minus_one unat_eq_0 [symmetric]
        simp del: unat_eq_0)
  have pos': "owning_alloc (events_of b s) \<Longrightarrow> 0 < S b - 1"
    using hinv_okD [OF inv, of b] pos cb nz snz
    by (auto simp add: ok_def unat_minus_one unat_eq_0 [symmetric] simp del: unat_eq_0)
  have oka: "\<And>a. a \<noteq> b \<Longrightarrow> ok a ?s (S a) (W a)"
    using hinv_okD [OF inv] by (subst ok_frame [where s = s]) simp_all
  show ?thesis
    using inv okb oka pos' unfolding hinv_def
    by auto
qed

text \<open>The strong count reaches zero and \<open>Dispose\<close> is entered.\<close>

lemma Dispose_entry_hinv:
  assumes inv: "hinv {} s S W" and cb: "cblocks s b = Some cb" and pos: "0 < S b"
    and z: "strong_ref_counter cb - 1 = 0"
  shows "hinv {b} (s\<lparr>cblocks := (cblocks s)(b \<mapsto> RemoveStrongRef cb),
                     trace := trace s @ [DisposeCall b 0]\<rparr>) (S(b := S b - 1)) W"
proof -
  let ?s = "s\<lparr>cblocks := (cblocks s)(b \<mapsto> RemoveStrongRef cb),
              trace := trace s @ [DisposeCall b 0]\<rparr>"
  have one: "strong_ref_counter cb = 1"
    using z by simp
  have okb: "ok b ?s (S b - 1) (W b)"
    using hinv_okD [OF inv, of b] pos cb one
    by (auto simp add: ok_def RemoveStrongRef_def owning_alloc_snoc_call owning_alloc_nonempty)
  have oka: "\<And>a. a \<noteq> b \<Longrightarrow> ok a ?s (S a) (W a)"
    using hinv_okD [OF inv] by (subst ok_frame [where s = s]) simp_all
  show ?thesis
    using inv okb oka unfolding hinv_def
    by (auto simp add: owning_alloc_snoc_call owning_alloc_nonempty)
qed

text \<open>The closing test of \<open>Release\<close>, with \<open>Destroy\<close>.\<close>

lemma Destroy_hinv:
  assumes inv: "hinv {b} s S W" and cb: "cblocks s b = Some cb"
    and z: "strong_ref_counter cb = 0" "weak_ref_counter cb = 0"
    and gone: "objs s (Storage b) = None"
  shows "hinv {} (s\<lparr>cblocks := (cblocks s)(b := None), objs := (objs s)(Storage b := None),
                    trace := trace s @ [DestroyCall b 0 0]\<rparr>) S W"
proof -
  let ?s = "s\<lparr>cblocks := (cblocks s)(b := None), objs := (objs s)(Storage b := None),
              trace := trace s @ [DestroyCall b 0 0]\<rparr>"
  have okb: "ok b ?s (S b) (W b)"
    using hinv_okD [OF inv, of b] cb z
    by (auto simp add: ok_def owning_alloc_snoc_call owning_alloc_nonempty
        unat_eq_0 [symmetric] simp del: unat_eq_0)
  have oka: "\<And>a. a \<noteq> b \<Longrightarrow> ok a ?s (S a) (W a)"
    using hinv_okD [OF inv] by (subst ok_frame [where s = s]) simp_all
  have okall: "ok a ?s (S a) (W a)" for a
    using okb oka by (cases "a = b") simp_all
  show ?thesis
    using inv okall gone unfolding hinv_def
    by (auto simp add: owning_alloc_snoc_call)
qed

lemma SharedPtr_Release_cases:
  assumes "SharedPtr_Release esft sp s = Inr (sp', s')" and "sp_cblock sp = Some b"
  obtains s1 cb where "(if esft then clear_weak_this (sp_ptr sp) s else Inr s) = Inr s1"
      and "cblocks s1 b = Some cb" and "strong_ref_counter cb - 1 \<noteq> 0"
      and "s' = s1\<lparr>cblocks := (cblocks s1)(b \<mapsto> RemoveStrongRef cb)\<rparr>"
  | s1 cb s3 cb3 where "(if esft then clear_weak_this (sp_ptr sp) s else Inr s) = Inr s1"
      and "cblocks s1 b = Some cb" and "strong_ref_counter cb - 1 = 0"
      and "Dispose b (s1\<lparr>cblocks := (cblocks s1)(b \<mapsto> RemoveStrongRef cb)\<rparr>) = Inr s3"
      and "cblocks s3 b = Some cb3"
      and "\<not> (strong_ref_counter cb3 = 0 \<and> weak_ref_counter cb3 = 0)"
      and "s' = s3"
  | s1 cb s3 cb3 where "(if esft then clear_weak_this (sp_ptr sp) s else Inr s) = Inr s1"
      and "cblocks s1 b = Some cb" and "strong_ref_counter cb - 1 = 0"
      and "Dispose b (s1\<lparr>cblocks := (cblocks s1)(b \<mapsto> RemoveStrongRef cb)\<rparr>) = Inr s3"
      and "cblocks s3 b = Some cb3"
      and "strong_ref_counter cb3 = 0" and "weak_ref_counter cb3 = 0"
      and "s' = s3\<lparr>cblocks := (cblocks s3)(b := None), objs := (objs s3)(Storage b := None),
                     trace := trace s3 @ [DestroyCall b 0 0]\<rparr>"
proof -
  from assms obtain s1 where s1: "(if esft then clear_weak_this (sp_ptr sp) s else Inr s) = Inr s1"
    by (cases "if esft then clear_weak_this (sp_ptr sp) s else Inr s")
       (simp_all add: SharedPtr_Release_def)
  from assms s1 obtain cb where cb: "cblocks s1 b = Some cb"
    by (cases "cblocks s1 b") (simp_all add: SharedPtr_Release_def load_cb_def)
  let ?s2 = "s1\<lparr>cblocks := (cblocks s1)(b \<mapsto> RemoveStrongRef cb)\<rparr>"
  show thesis
  proof (cases "strong_ref_counter cb - 1 = 0")
    case False
    then have "s' = ?s2"
      using assms s1 cb
      by (simp add: SharedPtr_Release_def cb_defs Let_def)
    with s1 cb False show thesis by (rule that(1))
  next
    case True
    from assms s1 cb True obtain s3 where s3: "Dispose b ?s2 = Inr s3"
      by (cases "Dispose b ?s2") (simp_all add: SharedPtr_Release_def cb_defs Let_def)
    from assms s1 cb True s3 obtain cb3 where cb3: "cblocks s3 b = Some cb3"
      by (cases "cblocks s3 b") (simp_all add: SharedPtr_Release_def cb_defs Let_def)
    show thesis
    proof (cases "strong_ref_counter cb3 = 0 \<and> weak_ref_counter cb3 = 0")
      case False
      then have "s' = s3"
        using assms s1 cb True s3 cb3
        by (auto simp add: SharedPtr_Release_def cb_defs Let_def)
      with s1 cb True s3 cb3 False show thesis by (rule that(2))
    next
      case z: True
      then have "s' = s3\<lparr>cblocks := (cblocks s3)(b := None), objs := (objs s3)(Storage b := None),
                     trace := trace s3 @ [DestroyCall b 0 0]\<rparr>"
        using assms s1 cb True s3 cb3
        by (auto simp add: SharedPtr_Release_def Destroy_def cb_defs Let_def)
      with s1 cb True s3 cb3 z show thesis by (intro that(3)) auto
    qed
  qed
qed

lemma SharedPtr_Release_Zeroing:
  "SharedPtr_Release esft sp s = Inr (sp', s') \<Longrightarrow> sp' = SharedPtr_Zeroing"
  by (auto simp add: SharedPtr_Release_def Let_def bindE_def split: option.splits sum.splits if_splits)

lemma SharedPtr_Release_none:
  "sp_cblock sp = None \<Longrightarrow> SharedPtr_Release esft sp s = Inr (SharedPtr_Zeroing, s)"
  by (simp add: SharedPtr_Release_def)

lemma Dispose_cases:
  assumes "Dispose b s = Inr s'" and "cblocks s b = Some cb"
  obtains "variant cb = ControlBlockPtr NullPtr"
      and "s' = s\<lparr>trace := trace s @ [DisposeCall b (strong_ref_counter cb)]\<rparr>"
  | q where "variant cb = ControlBlockPtr q" and "q \<noteq> NullPtr"
      and "destroy_object q (s\<lparr>trace := trace s @ [DisposeCall b (strong_ref_counter cb)]\<rparr>) = Inr s'"
  | "variant cb = ControlBlockHolder"
      and "destroy_object (Storage b) (s\<lparr>trace := trace s @ [DisposeCall b (strong_ref_counter cb)]\<rparr>) = Inr s'"
  using assms
  by (cases "variant cb") (auto simp add: Dispose_def Let_def split: if_splits)

lemma Winv_objs_frame:
  assumes "Winv X s S Wh" and "objs s' = objs s" and "next_addr s' = next_addr s"
    and "hinv Y s' S' (\<lambda>a. Wh' a + orefs (objs s) a)"
  shows "Winv Y s' S' Wh'"
  using assms by (simp add: Winv_def objs_fresh_def)

lemma Dispose_Winv:
  assumes inv: "Winv {} s S Wh" and cb: "cblocks s b = Some cb" and pos: "0 < S b"
    and z: "strong_ref_counter cb - 1 = 0"
    and run: "Dispose b (s\<lparr>cblocks := (cblocks s)(b \<mapsto> RemoveStrongRef cb)\<rparr>) = Inr s'"
  shows "Winv {b} s' (S(b := S b - 1)) Wh" and "objs s' (Storage b) = None"
    and "next_addr s' = next_addr s" and "dom (objs s') \<subseteq> dom (objs s)"
proof -
  let ?s2 = "s\<lparr>cblocks := (cblocks s)(b \<mapsto> RemoveStrongRef cb)\<rparr>"
  let ?s0 = "?s2\<lparr>trace := trace ?s2 @ [DisposeCall b (strong_ref_counter (RemoveStrongRef cb))]\<rparr>"
  let ?S = "S(b := S b - 1)"
  from inv have h: "hinv {} s S (\<lambda>a. Wh a + orefs (objs s) a)"
    by (simp add: Winv_def)
  have s0: "?s0 = s\<lparr>cblocks := (cblocks s)(b \<mapsto> RemoveStrongRef cb),
                     trace := trace s @ [DisposeCall b 0]\<rparr>"
    using z by (simp add: RemoveStrongRef_def)
  have h0: "hinv {b} ?s0 ?S (\<lambda>a. Wh a + orefs (objs s) a)"
    unfolding s0 using h cb pos z by (rule Dispose_entry_hinv)
  have w0: "Winv {b} ?s0 ?S Wh"
    using inv h0 by (intro Winv_objs_frame [OF inv]) simp_all
  have cb2: "cblocks ?s2 b = Some (RemoveStrongRef cb)"
    by simp
  have var: "objs s (Storage b) \<noteq> None \<Longrightarrow> variant cb = ControlBlockHolder"
  proof -
    assume "objs s (Storage b) \<noteq> None"
    with h have "owning_alloc (events_of b s)"
      and "hd (events_of b s) = AllocBlock b ControlBlockHolder"
      by (auto simp add: hinv_def)
    with hinv_okD [OF h, of b] cb show ?thesis
      by (auto simp add: ok_def)
  qed
  have "Winv {b} s' ?S Wh \<and> objs s' (Storage b) = None \<and> next_addr s' = next_addr s \<and>
        dom (objs s') \<subseteq> dom (objs s)"
    using run cb2
  proof (cases rule: Dispose_cases)
    case 1
    then have "variant cb = ControlBlockPtr NullPtr" and s': "s' = ?s0"
      by (simp_all add: RemoveStrongRef_def)
    with var have "objs s (Storage b) = None" by (cases "objs s (Storage b)") auto
    with w0 s' show ?thesis by simp
  next
    case (2 q)
    then have v: "variant cb = ControlBlockPtr q" and d: "destroy_object q ?s0 = Inr s'"
      by (simp_all add: RemoveStrongRef_def)
    from v var have gone: "objs s (Storage b) = None" by (cases "objs s (Storage b)") auto
    have ex: "\<And>b'. b' \<in> {b} \<Longrightarrow> objs ?s0 (Storage b') \<noteq> None \<Longrightarrow> q = Storage b'"
      using gone by simp
    note r = destroy_object_Winv [OF w0 d ex]
    from r(3) gone have "objs s' (Storage b) = None" by auto
    with r show ?thesis by simp
  next
    case 3
    then have d: "destroy_object (Storage b) ?s0 = Inr s'"
      by (simp_all add: RemoveStrongRef_def)
    have ex: "\<And>b'. b' \<in> {b} \<Longrightarrow> objs ?s0 (Storage b') \<noteq> None \<Longrightarrow> Storage b = Storage b'"
      by simp
    note r = destroy_object_Winv [OF w0 d ex]
    then show ?thesis by simp
  qed
  then show "Winv {b} s' (S(b := S b - 1)) Wh" and "objs s' (Storage b) = None"
    and "next_addr s' = next_addr s" and "dom (objs s') \<subseteq> dom (objs s)"
    by simp_all
qed

lemma SharedPtr_Release_Winv:
  assumes inv: "Winv {} s S Wh"
    and run: "SharedPtr_Release esft sp s = Inr (sp', s')"
    and sp: "sp_cblock sp = Some b"
    and pos: "0 < S b"
  shows "Winv {} s' (S(b := S b - 1)) Wh" and "next_addr s' = next_addr s"
    and "dom (objs s') \<subseteq> dom (objs s)"
proof -
  let ?S = "S(b := S b - 1)"
  have pre: "\<And>s1. (if esft then clear_weak_this (sp_ptr sp) s else Inr s) = Inr s1 \<Longrightarrow>
      Winv {} s1 S Wh \<and> next_addr s1 = next_addr s \<and> dom (objs s1) = dom (objs s)"
  proof -
    fix s1 assume a: "(if esft then clear_weak_this (sp_ptr sp) s else Inr s) = Inr s1"
    show "Winv {} s1 S Wh \<and> next_addr s1 = next_addr s \<and> dom (objs s1) = dom (objs s)"
    proof (cases esft)
      case True
      with a have "clear_weak_this (sp_ptr sp) s = Inr s1" by simp
      from clear_weak_this_Winv [OF inv this] show ?thesis by simp
    next
      case False
      with a inv show ?thesis by simp
    qed
  qed
  have "Winv {} s' ?S Wh \<and> next_addr s' = next_addr s \<and> dom (objs s') \<subseteq> dom (objs s)"
    using run sp
  proof (cases rule: SharedPtr_Release_cases)
    case (1 s1 cb)
    note p = pre [OF 1(1)]
    then have h1: "hinv {} s1 S (\<lambda>a. Wh a + orefs (objs s1) a)"
      by (simp add: Winv_def)
    have "hinv {} s' ?S (\<lambda>a. Wh a + orefs (objs s1) a)"
      unfolding 1(4) using h1 1(2) pos 1(3) by (rule RemoveStrongRef_hinv)
    then have "Winv {} s' ?S Wh"
      using p by (intro Winv_objs_frame [OF p [THEN conjunct1]]) (simp_all add: 1(4))
    with p show ?thesis by (simp add: 1(4))
  next
    case (2 s1 cb s3 cb3)
    note p = pre [OF 2(1)]
    note d = Dispose_Winv [OF p [THEN conjunct1] 2(2) pos 2(3) 2(4)]
    from d(1) have h3: "hinv {b} s3 ?S (\<lambda>a. Wh a + orefs (objs s3) a)"
      by (simp add: Winv_def)
    have nz: "owning_alloc (events_of b s3) \<longrightarrow> cblocks s3 b \<noteq> None \<longrightarrow>
                0 < ?S b + (Wh b + orefs (objs s3) b)"
      using hinv_okD [OF h3, of b] 2(5,6)
      by (auto simp add: ok_def unat_eq_0 [symmetric] simp del: unat_eq_0)
    have "hinv {} s3 ?S (\<lambda>a. Wh a + orefs (objs s3) a)"
      using h3 d(2) nz by (rule hinv_close)
    then have "Winv {} s3 ?S Wh"
      using d(1) by (simp add: Winv_def)
    with p d show ?thesis by (simp add: 2(7))
  next
    case (3 s1 cb s3 cb3)
    note p = pre [OF 3(1)]
    note d = Dispose_Winv [OF p [THEN conjunct1] 3(2) pos 3(3) 3(4)]
    from d(1) have h3: "hinv {b} s3 ?S (\<lambda>a. Wh a + orefs (objs s3) a)"
      by (simp add: Winv_def)
    have same: "(objs s3)(Storage b := None) = objs s3"
      using d(2) by auto
    have "hinv {} s' ?S (\<lambda>a. Wh a + orefs (objs s3) a)"
      unfolding 3(8) using h3 3(5,6,7) d(2) by (rule Destroy_hinv)
    then have "Winv {} s' ?S Wh"
      using d(1) same by (simp add: Winv_def objs_fresh_def 3(8))
    with p d same show ?thesis by (simp add: 3(8))
  qed
  then show "Winv {} s' (S(b := S b - 1)) Wh" and "next_addr s' = next_addr s"
    and "dom (objs s') \<subseteq> dom (objs s)"
    by simp_all
qed

section \<open>The invariant of a configuration\<close>

lemma bindE_InrE:
  assumes "bindE m f = Inr y"
  obtains x where "m = Inr x" and "f x = Inr y"
  using assms by (cases m) simp_all

lemma count_map_update:
  "i < length xs \<Longrightarrow>
     count_list (map f (xs[i := y])) v =
       count_list (map f xs) v - (if f (xs ! i) = v then 1 else 0) + (if f y = v then 1 else 0)"
proof (induction xs arbitrary: i)
  case Nil
  then show ?case by simp
next
  case (Cons x xs)
  show ?case
  proof (cases i)
    case 0
    then show ?thesis by simp
  next
    case (Suc k)
    with Cons.prems have k: "k < length xs" by simp
    have pos: "f (xs ! k) = v \<Longrightarrow> 0 < count_list (map f xs) v"
      using k by (metis count_list_0_iff gr0I length_map nth_map nth_mem)
    show ?thesis
      using Cons.IH [OF k] pos by (auto simp add: Suc)
  qed
qed

lemma count_map_nth_pos:
  "i < length xs \<Longrightarrow> f (xs ! i) = v \<Longrightarrow> 0 < count_list (map f xs) v"
  by (metis count_list_0_iff gr0I length_map nth_map nth_mem)

text \<open>
  The invariant of a configuration: the references counted are those of its shared and
  weak pointer variables. \<open>footprint\<close> bounds every reference count.
\<close>

definition cinv :: "config \<Rightarrow> bool" where
  "cinv c \<longleftrightarrow> Winv {} (mem c) (srefs c) (wrefs c)"

definition footprint :: "config \<Rightarrow> nat" where
  "footprint c = length (shared c) + length (weak c) + next_addr (mem c)"

lemma srefs_le: "srefs c a \<le> length (shared c)"
  using count_le_length [of "map sp_cblock (shared c)" "Some a"] by (simp add: srefs_def)

lemma wrefs_le: "wrefs c a \<le> length (weak c)"
  using count_le_length [of "map wp_cblock (weak c)" "Some a"] by (simp add: wrefs_def)

lemma Winv_cong:
  "Winv X s S Wh \<Longrightarrow> (\<And>a. S' a = S a) \<Longrightarrow> (\<And>a. Wh' a = Wh a) \<Longrightarrow> Winv X s S' Wh'"
proof -
  assume h: "Winv X s S Wh" and 1: "\<And>a. S' a = S a" and 2: "\<And>a. Wh' a = Wh a"
  have "S' = S" "Wh' = Wh" using 1 2 by auto
  with h show ?thesis by simp
qed

text \<open>The primitives on \<open>Winv\<close>\<close>

lemma AddStrongRef_Winv:
  assumes inv: "Winv {} s S Wh" and run: "cblock_AddStrongRef b s = Inr s'"
    and pos: "owning_alloc (events_of b s) \<longrightarrow> 0 < S b \<and> S b + 1 < 2 ^ 64"
  shows "Winv {} s' (S(b := S b + 1)) Wh" and "next_addr s' = next_addr s"
    and "objs s' = objs s"
proof -
  note fr = AddStrongRef_frame [OF run]
  from inv have "hinv {} s S (\<lambda>a. Wh a + orefs (objs s) a)" by (simp add: Winv_def)
  from AddStrongRef_hinv [OF this run pos] show "Winv {} s' (S(b := S b + 1)) Wh"
    using inv fr by (simp add: Winv_def objs_fresh_def)
  show "next_addr s' = next_addr s" "objs s' = objs s" using fr by simp_all
qed

lemma AddWeakRef_Winv:
  assumes inv: "Winv {} s S Wh" and run: "cblock_AddWeakRef b s = Inr s'"
    and pos: "Wh b + next_addr s + 1 < 2 ^ 64"
  shows "Winv {} s' S (Wh(b := Wh b + 1))" and "next_addr s' = next_addr s"
    and "objs s' = objs s"
proof -
  note fr = AddWeakRef_frame [OF run]
  from inv have fin: "finite (dom (objs s))" and crd: "card (dom (objs s)) \<le> next_addr s"
    and h: "hinv {} s S (\<lambda>a. Wh a + orefs (objs s) a)"
    by (simp_all add: Winv_def)
  have "Wh b + orefs (objs s) b + 1 < 2 ^ 64"
    using pos crd orefs_le [OF fin, of b] by linarith
  with AddWeakRef_hinv [OF h run]
  have "hinv {} s' S ((\<lambda>a. Wh a + orefs (objs s) a)(b := Wh b + orefs (objs s) b + 1))"
    by simp
  then have "hinv {} s' S (\<lambda>a. (Wh(b := Wh b + 1)) a + orefs (objs s) a)"
    by (rule hinv_cong) simp_all
  then show "Winv {} s' S (Wh(b := Wh b + 1))"
    using inv fr by (simp add: Winv_def objs_fresh_def)
  show "next_addr s' = next_addr s" "objs s' = objs s" using fr by simp_all
qed

lemma WeakPtr_Release_Winv:
  assumes inv: "Winv {} s S Wh" and run: "WeakPtr_Release w s = Inr (w', s')"
    and w: "wp_cblock w = Some b" and pos: "0 < Wh b"
  shows "Winv {} s' S (Wh(b := Wh b - 1))" and "next_addr s' = next_addr s"
    and "objs s' = objs s"
proof -
  from inv have h: "hinv {} s S (\<lambda>a. Wh a + orefs (objs s) a)"
    by (simp add: Winv_def)
  note fr = WeakPtr_Release_frame [OF h run w]
  from fr(3) have same: "objs s' = objs s" by simp
  have "hinv {} s' S ((\<lambda>a. Wh a + orefs (objs s) a)(b := Wh b + orefs (objs s) b - 1))"
    using WeakPtr_Release_hinv(1) [OF h run w] pos by simp
  then have "hinv {} s' S (\<lambda>a. (Wh(b := Wh b - 1)) a + orefs (objs s) a)"
    by (rule hinv_cong) (use pos in simp_all)
  then show "Winv {} s' S (Wh(b := Wh b - 1))"
    using inv fr same by (simp add: Winv_def objs_fresh_def)
  show "next_addr s' = next_addr s" "objs s' = objs s" using fr same by simp_all
qed

lemma Winv_fresh:
  assumes "Winv X s S Wh"
  shows "S (next_addr s) = 0" and "Wh (next_addr s) = 0" and "cblocks s (next_addr s) = None"
    and "objs s (Storage (next_addr s)) = None" and "objs s (HeapObj (next_addr s)) = None"
proof -
  from assms have h: "hinv X s S (\<lambda>a. Wh a + orefs (objs s) a)" and f: "objs_fresh s"
    by (simp_all add: Winv_def)
  from hinv_okD [OF h, of "next_addr s"]
  show "S (next_addr s) = 0" and "Wh (next_addr s) = 0" and "cblocks s (next_addr s) = None"
    by (simp_all add: ok_def)
  from f show "objs s (Storage (next_addr s)) = None" and "objs s (HeapObj (next_addr s)) = None"
    by (simp_all add: objs_fresh_def)
qed

lemma Winv_live_lt:
  assumes "Winv X s S Wh" and "cblocks s b \<noteq> None"
  shows "b < next_addr s"
proof -
  from assms have h: "hinv X s S (\<lambda>a. Wh a + orefs (objs s) a)"
    by (simp add: Winv_def)
  from hinv_okD [OF h, of b] assms(2) show ?thesis
    by (auto simp add: ok_def)
qed

lemma new_ControlBlockPtr_Winv:
  assumes inv: "Winv {} s S Wh" and run: "new_ControlBlockPtr p s = (a, s')"
  shows "Winv {} s' (S(a := 1)) Wh" and "a = next_addr s" and "next_addr s' = Suc (next_addr s)"
    and "objs s' = objs s"
proof -
  from run have a: "a = next_addr s" and n: "next_addr s' = Suc (next_addr s)"
    and o: "objs s' = objs s"
    by (auto simp add: new_ControlBlockPtr_def Let_def)
  from inv have h: "hinv {} s S (\<lambda>a. Wh a + orefs (objs s) a)"
    by (simp add: Winv_def)
  from new_ControlBlockPtr_hinv [OF h run]
  show "Winv {} s' (S(a := 1)) Wh"
    using inv a n o by (auto simp add: Winv_def objs_fresh_def)
  show "a = next_addr s" "next_addr s' = Suc (next_addr s)" "objs s' = objs s"
    by (rule a n o)+
qed

lemma new_ControlBlockHolder_Winv:
  assumes inv: "Winv {} s S Wh" and run: "new_ControlBlockHolder T_default () s = Inr (a, s')"
  shows "Winv {} s' (S(a := 1)) Wh" and "a = next_addr s" and "next_addr s' = Suc (next_addr s)"
    and "objs s' = (objs s)(Storage a \<mapsto> WeakPtr_Zeroing)"
proof -
  from run have a: "a = next_addr s" and n: "next_addr s' = Suc (next_addr s)"
    and o: "objs s' = (objs s)(Storage a \<mapsto> WeakPtr_Zeroing)"
    by (auto simp add: new_ControlBlockHolder_def allocate_holder_def T_default_def Let_def
        cblock_AddStrongRef_def load_cb_def store_cb_def)
  from inv have h: "hinv {} s S (\<lambda>a. Wh a + orefs (objs s) a)"
    and fin: "finite (dom (objs s))" and crd: "card (dom (objs s)) \<le> next_addr s"
    by (simp_all add: Winv_def)
  have none: "objs s (Storage a) = None"
    using Winv_fresh(4) [OF inv] a by simp
  have same: "\<And>x. orefs (objs s') x = orefs (objs s) x"
    using none by (simp add: o orefs_upd [OF fin] WeakPtr_Zeroing_def)
  have "card (dom (objs s')) \<le> Suc (card (dom (objs s)))"
    using fin by (simp add: o card_insert_if)
  with new_ControlBlockHolder_hinv [OF h run]
  show "Winv {} s' (S(a := 1)) Wh"
    using inv a n o same crd fin by (auto simp add: Winv_def objs_fresh_def)
  show "a = next_addr s" "next_addr s' = Suc (next_addr s)"
    "objs s' = (objs s)(Storage a \<mapsto> WeakPtr_Zeroing)"
    by (rule a n o)+
qed

lemma new_object_Winv:
  assumes inv: "Winv {} s S Wh" and run: "new_object s = (p, s')"
  shows "Winv {} s' S Wh" and "next_addr s' = Suc (next_addr s)"
proof -
  from run have p: "p = HeapObj (next_addr s)" and n: "next_addr s' = Suc (next_addr s)"
    and o: "objs s' = (objs s)(p \<mapsto> \<lparr>wp_ptr = NullPtr, wp_cblock = None\<rparr>)"
    by (auto simp add: new_object_def)
  from inv have h: "hinv {} s S (\<lambda>a. Wh a + orefs (objs s) a)"
    and fin: "finite (dom (objs s))" and crd: "card (dom (objs s)) \<le> next_addr s"
    by (simp_all add: Winv_def)
  have none: "objs s p = None"
    using Winv_fresh(5) [OF inv] p by simp
  have same: "\<And>x. orefs (objs s') x = orefs (objs s) x"
    using none by (simp add: o orefs_upd [OF fin])
  have "card (dom (objs s')) \<le> Suc (card (dom (objs s)))"
    using fin by (simp add: o card_insert_if)
  with new_object_hinv [OF h run]
  show "Winv {} s' S Wh"
    using inv p n o same crd fin by (auto simp add: Winv_def objs_fresh_def)
  show "next_addr s' = Suc (next_addr s)" by (rule n)
qed

text \<open>One reference more, or one less, to the block of a pointer (none if it has no block).\<close>

definition inc :: "addr option \<Rightarrow> (addr \<Rightarrow> nat) \<Rightarrow> addr \<Rightarrow> nat" where
  "inc b S a = S a + (if b = Some a then 1 else 0)"

definition dec :: "addr option \<Rightarrow> (addr \<Rightarrow> nat) \<Rightarrow> addr \<Rightarrow> nat" where
  "dec b S a = S a - (if b = Some a then 1 else 0)"

lemma inc_None [simp]: "inc None S = S"
  by (rule ext) (simp add: inc_def)

lemma dec_None [simp]: "dec None S = S"
  by (rule ext) (simp add: dec_def)

lemma inc_Some: "inc (Some b) S = S(b := S b + 1)"
  by (rule ext) (simp add: inc_def)

lemma dec_Some: "dec (Some b) S = S(b := S b - 1)"
  by (rule ext) (simp add: dec_def)

text \<open>No counter is about to wrap around, with room for \<open>n\<close> references from objects.\<close>

definition small :: "nat \<Rightarrow> (addr \<Rightarrow> nat) \<Rightarrow> (addr \<Rightarrow> nat) \<Rightarrow> bool" where
  "small n S Wh \<longleftrightarrow> (\<forall>a. S a + 1 < 2 ^ 64 \<and> Wh a + n + 1 < 2 ^ 64)"

lemma small_mono:
  assumes "small n S Wh" and "\<And>a. S' a \<le> S a" and "\<And>a. Wh' a \<le> Wh a"
  shows "small n S' Wh'"
  unfolding small_def
proof (intro allI conjI)
  fix a
  from assms(1) have 1: "S a + 1 < 2 ^ 64" and 2: "Wh a + n + 1 < 2 ^ 64"
    by (simp_all add: small_def)
  from 1 assms(2) [of a] show "S' a + 1 < 2 ^ 64" by linarith
  from 2 assms(3) [of a] show "Wh' a + n + 1 < 2 ^ 64" by linarith
qed

lemma small_dec: "small n S Wh \<Longrightarrow> small n (dec b S) Wh"
  by (erule small_mono) (simp_all add: dec_def)

lemma small_dec_w: "small n S Wh \<Longrightarrow> small n S (dec b Wh)"
  by (erule small_mono) (simp_all add: dec_def)

lemma small_one: "small n S Wh \<Longrightarrow> small n (S(a := 1)) Wh"
  by (simp add: small_def)

lemma acquire_strong:
  assumes inv: "Winv {} s S Wh"
    and run: "(case bo of None \<Rightarrow> Inr s | Some a \<Rightarrow> cblock_AddStrongRef a s) = Inr s'"
    and pos: "\<And>b. bo = Some b \<Longrightarrow> owning_alloc (events_of b s) \<Longrightarrow> 0 < S b"
    and sm: "small n S Wh"
  shows "Winv {} s' (inc bo S) Wh" and "next_addr s' = next_addr s" and "objs s' = objs s"
proof -
  have "Winv {} s' (inc bo S) Wh \<and> next_addr s' = next_addr s \<and> objs s' = objs s"
  proof (cases bo)
    case None
    with run inv show ?thesis by simp
  next
    case (Some b)
    with run have r: "cblock_AddStrongRef b s = Inr s'" by simp
    have "owning_alloc (events_of b s) \<longrightarrow> 0 < S b \<and> S b + 1 < 2 ^ 64"
      using pos [OF Some] sm by (simp add: small_def)
    from AddStrongRef_Winv [OF inv r this] show ?thesis
      by (simp add: Some inc_Some)
  qed
  then show "Winv {} s' (inc bo S) Wh" and "next_addr s' = next_addr s" and "objs s' = objs s"
    by simp_all
qed

lemma acquire_weak:
  assumes inv: "Winv {} s S Wh"
    and run: "(case bo of None \<Rightarrow> Inr s | Some a \<Rightarrow> cblock_AddWeakRef a s) = Inr s'"
    and sm: "small n S Wh" and le: "next_addr s \<le> n"
  shows "Winv {} s' S (inc bo Wh)" and "next_addr s' = next_addr s" and "objs s' = objs s"
proof -
  have "Winv {} s' S (inc bo Wh) \<and> next_addr s' = next_addr s \<and> objs s' = objs s"
  proof (cases bo)
    case None
    with run inv show ?thesis by simp
  next
    case (Some b)
    with run have r: "cblock_AddWeakRef b s = Inr s'" by simp
    have "Wh b + n + 1 < 2 ^ 64"
      using sm by (simp add: small_def)
    with le have "Wh b + next_addr s + 1 < 2 ^ 64"
      by linarith
    from AddWeakRef_Winv [OF inv r this] show ?thesis
      by (simp add: Some inc_Some)
  qed
  then show "Winv {} s' S (inc bo Wh)" and "next_addr s' = next_addr s" and "objs s' = objs s"
    by simp_all
qed

lemma release_strong:
  assumes inv: "Winv {} s S Wh"
    and run: "SharedPtr_Release esft sp s = Inr (sp', s')"
    and pos: "\<And>b. sp_cblock sp = Some b \<Longrightarrow> 0 < S b"
  shows "Winv {} s' (dec (sp_cblock sp) S) Wh" and "next_addr s' = next_addr s"
    and "sp' = SharedPtr_Zeroing"
proof -
  have "Winv {} s' (dec (sp_cblock sp) S) Wh \<and> next_addr s' = next_addr s"
  proof (cases "sp_cblock sp")
    case None
    with run inv show ?thesis by (simp add: SharedPtr_Release_none)
  next
    case (Some b)
    from SharedPtr_Release_Winv [OF inv run Some pos [OF Some]] show ?thesis
      by (simp add: Some dec_Some)
  qed
  then show "Winv {} s' (dec (sp_cblock sp) S) Wh" and "next_addr s' = next_addr s"
    by simp_all
  show "sp' = SharedPtr_Zeroing"
    using run by (rule SharedPtr_Release_Zeroing)
qed

lemma release_weak:
  assumes inv: "Winv {} s S Wh"
    and run: "WeakPtr_Release w s = Inr (w', s')"
    and pos: "\<And>b. wp_cblock w = Some b \<Longrightarrow> 0 < Wh b"
  shows "Winv {} s' S (dec (wp_cblock w) Wh)" and "next_addr s' = next_addr s"
    and "w' = WeakPtr_Zeroing"
proof -
  have "Winv {} s' S (dec (wp_cblock w) Wh) \<and> next_addr s' = next_addr s"
  proof (cases "wp_cblock w")
    case None
    with run inv show ?thesis by (simp add: WeakPtr_Release_none)
  next
    case (Some b)
    from WeakPtr_Release_Winv [OF inv run Some pos [OF Some]] show ?thesis
      by (simp add: Some dec_Some)
  qed
  then show "Winv {} s' S (dec (wp_cblock w) Wh)" and "next_addr s' = next_addr s"
    by simp_all
  show "w' = WeakPtr_Zeroing"
    using run by (rule WeakPtr_Release_Zeroing)
qed

lemma set_weak_this_opt:
  assumes inv: "Winv {} s S Wh"
    and run: "(if esft then set_weak_this p this s else Inr s) = Inr s'"
    and sm: "small n S Wh" and le: "next_addr s \<le> n"
  shows "Winv {} s' S Wh" and "next_addr s' = next_addr s"
proof -
  have "Winv {} s' S Wh \<and> next_addr s' = next_addr s"
  proof (cases esft)
    case True
    with run have r: "set_weak_this p this s = Inr s'" by simp
    from inv have crd: "card (dom (objs s)) \<le> next_addr s" by (simp add: Winv_def)
    have "\<And>b. sp_cblock this = Some b \<Longrightarrow> Wh b + card (dom (objs s)) + 1 < 2 ^ 64"
    proof -
      fix b
      have "Wh b + n + 1 < 2 ^ 64" using sm by (simp add: small_def)
      with crd le show "Wh b + card (dom (objs s)) + 1 < 2 ^ 64" by linarith
    qed
    from set_weak_this_Winv [OF inv r this] show ?thesis by simp
  next
    case False
    with run inv show ?thesis by simp
  qed
  then show "Winv {} s' S Wh" and "next_addr s' = next_addr s" by simp_all
qed

lemma inc_fresh: "S a = 0 \<Longrightarrow> S(a := Suc 0) = inc (Some a) S"
  by (rule ext) (simp add: inc_def)

lemma ctor_raw_Winv:
  assumes inv: "Winv {} s S Wh" and run: "SharedPtr_ctor_raw esft p s = Inr (this, s')"
    and sm: "small n S Wh" and le: "Suc (next_addr s) \<le> n"
  shows "Winv {} s' (inc (sp_cblock this) S) Wh" and "next_addr s' = Suc (next_addr s)"
proof -
  obtain a s1 where new: "new_ControlBlockPtr p s = (a, s1)"
    by (cases "new_ControlBlockPtr p s")
  with run have th: "this = \<lparr>sp_ptr = p, sp_cblock = Some a\<rparr>"
    and r: "(if esft then set_weak_this p \<lparr>sp_ptr = p, sp_cblock = Some a\<rparr> s1 else Inr s1) = Inr s'"
    by (auto simp add: SharedPtr_ctor_raw_def Let_def elim!: bindE_InrE)
  note n = new_ControlBlockPtr_Winv [OF inv new]
  have "S a = 0" using Winv_fresh(1) [OF inv] n(2) by simp
  then have eq: "S(a := 1) = inc (sp_cblock this) S"
    by (simp add: th inc_fresh)
  have sm1: "small n (S(a := 1)) Wh" using sm by (rule small_one)
  have le1: "next_addr s1 \<le> n" using le n(3) by simp
  from set_weak_this_opt [OF n(1) r sm1 le1] n(3) eq
  show "Winv {} s' (inc (sp_cblock this) S) Wh" and "next_addr s' = Suc (next_addr s)"
    by simp_all
qed

lemma MakeShared_Winv:
  assumes inv: "Winv {} s S Wh" and run: "MakeShared esft T_default () s = Inr (this, s')"
    and sm: "small n S Wh" and le: "Suc (next_addr s) \<le> n"
  shows "Winv {} s' (inc (sp_cblock this) S) Wh" and "next_addr s' = Suc (next_addr s)"
proof -
  from run obtain a s1 where new: "new_ControlBlockHolder T_default () s = Inr (a, s1)"
    and hold: "SharedPtr_ctor_holder esft a s1 = Inr (this, s')"
    unfolding MakeShared_def by (auto elim!: bindE_InrE)
  from hold have th: "this = \<lparr>sp_ptr = Storage a, sp_cblock = Some a\<rparr>"
    and r: "(if esft then set_weak_this (Storage a) \<lparr>sp_ptr = Storage a, sp_cblock = Some a\<rparr> s1
             else Inr s1) = Inr s'"
    by (auto simp add: SharedPtr_ctor_holder_def GetPtr_def Let_def elim!: bindE_InrE)
  note n = new_ControlBlockHolder_Winv [OF inv new]
  have "S a = 0" using Winv_fresh(1) [OF inv] n(2) by simp
  then have eq: "S(a := 1) = inc (sp_cblock this) S"
    by (simp add: th inc_fresh)
  have sm1: "small n (S(a := 1)) Wh" using sm by (rule small_one)
  have le1: "next_addr s1 \<le> n" using le n(3) by simp
  from set_weak_this_opt [OF n(1) r sm1 le1] n(3) eq
  show "Winv {} s' (inc (sp_cblock this) S) Wh" and "next_addr s' = Suc (next_addr s)"
    by simp_all
qed

lemma small_inc: "small n S Wh \<Longrightarrow> (\<And>a. S a + 2 < 2 ^ 64) \<Longrightarrow> small n (inc b S) Wh"
  by (simp add: small_def inc_def)

lemma ctor_copy_Winv:
  assumes inv: "Winv {} s S Wh" and run: "SharedPtr_ctor_copy esft other s = Inr (this, s')"
    and pos: "\<And>b. sp_cblock other = Some b \<Longrightarrow> 0 < S b"
    and sm: "small n S Wh" and sm2: "\<And>a. S a + 2 < 2 ^ 64" and le: "next_addr s \<le> n"
  shows "Winv {} s' (inc (sp_cblock other) S) Wh" and "next_addr s' = next_addr s"
    and "sp_cblock this = sp_cblock other"
proof -
  let ?this = "\<lparr>sp_ptr = sp_ptr other, sp_cblock = sp_cblock other\<rparr>"
  from run obtain s1 where
    a: "(case sp_cblock other of None \<Rightarrow> Inr s | Some a \<Rightarrow> cblock_AddStrongRef a s) = Inr s1"
    and r: "(if esft then set_weak_this (sp_ptr other) ?this s1 else Inr s1) = Inr s'"
    and th: "this = ?this"
    by (auto simp add: SharedPtr_ctor_copy_def Let_def elim!: bindE_InrE)
  note q = acquire_strong [OF inv a pos sm]
  have sm1: "small n (inc (sp_cblock other) S) Wh" using sm sm2 by (rule small_inc)
  have le1: "next_addr s1 \<le> n" using le q(2) by simp
  from set_weak_this_opt [OF q(1) r sm1 le1] q(2) th
  show "Winv {} s' (inc (sp_cblock other) S) Wh" and "next_addr s' = next_addr s"
    and "sp_cblock this = sp_cblock other"
    by simp_all
qed

lemma ctor_move_Winv:
  assumes inv: "Winv {} s S Wh" and run: "SharedPtr_ctor_move esft other s = Inr (this, other', s')"
    and sm: "small n S Wh" and le: "next_addr s \<le> n"
  shows "Winv {} s' S Wh" and "next_addr s' = next_addr s"
    and "sp_cblock this = sp_cblock other" and "other' = SharedPtr_Zeroing"
proof -
  let ?this = "\<lparr>sp_ptr = sp_ptr other, sp_cblock = sp_cblock other\<rparr>"
  from run have r: "(if esft then set_weak_this (sp_ptr other) ?this s else Inr s) = Inr s'"
    and th: "this = ?this" and o: "other' = SharedPtr_Zeroing"
    by (auto simp add: SharedPtr_ctor_move_def Let_def elim!: bindE_InrE)
  from set_weak_this_opt [OF inv r sm le] th o
  show "Winv {} s' S Wh" and "next_addr s' = next_addr s"
    and "sp_cblock this = sp_cblock other" and "other' = SharedPtr_Zeroing"
    by simp_all
qed

lemma ctor_alias_Winv:
  assumes inv: "Winv {} s S Wh" and run: "SharedPtr_ctor_alias other p s = Inr (this, s')"
    and pos: "\<And>b. sp_cblock other = Some b \<Longrightarrow> 0 < S b"
    and sm: "small n S Wh"
  shows "Winv {} s' (inc (sp_cblock other) S) Wh" and "next_addr s' = next_addr s"
    and "sp_cblock this = sp_cblock other"
proof -
  from run have
    a: "(case sp_cblock other of None \<Rightarrow> Inr s | Some a \<Rightarrow> cblock_AddStrongRef a s) = Inr s'"
    and th: "sp_cblock this = sp_cblock other"
    by (auto simp add: SharedPtr_ctor_alias_def Let_def elim!: bindE_InrE split: option.splits)
  from acquire_strong [OF inv a pos sm] th
  show "Winv {} s' (inc (sp_cblock other) S) Wh" and "next_addr s' = next_addr s"
    and "sp_cblock this = sp_cblock other"
    by simp_all
qed

lemma ctor_weak_Winv:
  assumes inv: "Winv {} s S Wh" and run: "SharedPtr_ctor_weak other s = Inr (this, s')"
    and sm: "small n S Wh"
  shows "Winv {} s' (inc (wp_cblock other) S) Wh" and "next_addr s' = next_addr s"
    and "sp_cblock this = wp_cblock other"
proof -
  from run obtain b cb where b: "wp_cblock other = Some b" and cb: "cblocks s b = Some cb"
    and nz: "strong_ref_counter cb \<noteq> 0"
    and a: "cblock_AddStrongRef b s = Inr s'"
    and th: "sp_cblock this = wp_cblock other"
    by (auto simp add: SharedPtr_ctor_weak_def WeakPtr_Expired_def WeakPtr_UseCount_def
        load_cb_def GetStrongRefsCount_def Let_def
        elim!: bindE_InrE split: option.splits if_splits)
  from inv have h: "hinv {} s S (\<lambda>a. Wh a + orefs (objs s) a)"
    by (simp add: Winv_def)
  have pos: "\<And>b'. wp_cblock other = Some b' \<Longrightarrow> owning_alloc (events_of b' s) \<Longrightarrow> 0 < S b'"
    using hinv_okD [OF h, of b] b cb nz
    by (auto simp add: ok_def unat_eq_0 [symmetric] simp del: unat_eq_0)
  have a': "(case wp_cblock other of None \<Rightarrow> Inr s | Some a \<Rightarrow> cblock_AddStrongRef a s) = Inr s'"
    using a b by simp
  from acquire_strong [OF inv a' pos sm] th
  show "Winv {} s' (inc (wp_cblock other) S) Wh" and "next_addr s' = next_addr s"
    and "sp_cblock this = wp_cblock other"
    by simp_all
qed

lemma Lock_Winv:
  assumes inv: "Winv {} s S Wh" and run: "WeakPtr_Lock w s = Inr (this, s')"
    and sm: "small n S Wh"
  shows "Winv {} s' (inc (sp_cblock this) S) Wh" and "next_addr s' = next_addr s"
    and "sp_cblock this = None \<or> sp_cblock this = wp_cblock w"
proof -
  from run obtain ex where "WeakPtr_Expired w s = Inr ex"
    and "(if ex then Inr (SharedPtr_ctor_default, s) else SharedPtr_ctor_weak w s) = Inr (this, s')"
    unfolding WeakPtr_Lock_def by (rule bindE_InrE)
  then consider "this = SharedPtr_ctor_default" and "s' = s"
    | "SharedPtr_ctor_weak w s = Inr (this, s')"
    by (cases ex) auto
  then have "Winv {} s' (inc (sp_cblock this) S) Wh \<and> next_addr s' = next_addr s \<and>
      (sp_cblock this = None \<or> sp_cblock this = wp_cblock w)"
  proof cases
    case 1
    with inv show ?thesis by (simp add: SharedPtr_ctor_default_def)
  next
    case 2
    from ctor_weak_Winv [OF inv 2 sm] show ?thesis by simp
  qed
  then show "Winv {} s' (inc (sp_cblock this) S) Wh" and "next_addr s' = next_addr s"
    and "sp_cblock this = None \<or> sp_cblock this = wp_cblock w"
    by simp_all
qed

lemma assign_copy_Winv:
  assumes inv: "Winv {} s S Wh"
    and run: "SharedPtr_assign_copy esft False this other s = Inr (this', s')"
    and pos1: "\<And>b. sp_cblock this = Some b \<Longrightarrow> 0 < S b"
    and pos2: "\<And>b. sp_cblock other = Some b \<Longrightarrow> 0 < dec (sp_cblock this) S b"
    and sm: "small n S Wh"
  shows "Winv {} s' (inc (sp_cblock other) (dec (sp_cblock this) S)) Wh"
    and "next_addr s' = next_addr s" and "sp_cblock this' = sp_cblock other"
proof -
  from run obtain z s1 where rel: "SharedPtr_Release esft this s = Inr (z, s1)"
    and a: "(case sp_cblock other of None \<Rightarrow> Inr s1 | Some a \<Rightarrow> cblock_AddStrongRef a s1) = Inr s'"
    and th: "sp_cblock this' = sp_cblock other"
    by (auto simp add: SharedPtr_assign_copy_def Let_def elim!: bindE_InrE split: option.splits)
  note r = release_strong [OF inv rel pos1]
  have sm1: "small n (dec (sp_cblock this) S) Wh" using sm by (rule small_dec)
  from acquire_strong [OF r(1) a pos2 sm1] r(2) th
  show "Winv {} s' (inc (sp_cblock other) (dec (sp_cblock this) S)) Wh"
    and "next_addr s' = next_addr s" and "sp_cblock this' = sp_cblock other"
    by simp_all
qed

lemma assign_move_Winv:
  assumes inv: "Winv {} s S Wh"
    and run: "SharedPtr_assign_move esft False this other s = Inr (this', other', s')"
    and pos1: "\<And>b. sp_cblock this = Some b \<Longrightarrow> 0 < S b"
  shows "Winv {} s' (dec (sp_cblock this) S) Wh"
    and "next_addr s' = next_addr s" and "sp_cblock this' = sp_cblock other"
    and "other' = SharedPtr_Zeroing"
proof -
  from run obtain z s1 where rel: "SharedPtr_Release esft this s = Inr (z, s1)"
    and s': "s' = s1" and th: "sp_cblock this' = sp_cblock other" and o: "other' = SharedPtr_Zeroing"
    by (auto simp add: SharedPtr_assign_move_def Let_def elim!: bindE_InrE)
  from release_strong [OF inv rel pos1] s' th o
  show "Winv {} s' (dec (sp_cblock this) S) Wh"
    and "next_addr s' = next_addr s" and "sp_cblock this' = sp_cblock other"
    and "other' = SharedPtr_Zeroing"
    by simp_all
qed

lemma Reset_ptr_Winv:
  assumes inv: "Winv {} s S Wh"
    and run: "SharedPtr_Reset_ptr esft this p s = Inr (this', s')"
    and pos1: "\<And>b. sp_cblock this = Some b \<Longrightarrow> 0 < S b"
  shows "Winv {} s' (inc (sp_cblock this') (dec (sp_cblock this) S)) Wh"
    and "next_addr s' = Suc (next_addr s)"
proof -
  from run obtain z s1 a where rel: "SharedPtr_Release esft this s = Inr (z, s1)"
    and new: "new_ControlBlockPtr p s1 = (a, s')" and th: "sp_cblock this' = Some a"
    by (auto simp add: SharedPtr_Reset_ptr_def Let_def elim!: bindE_InrE split: prod.splits)
  note r = release_strong [OF inv rel pos1]
  note n = new_ControlBlockPtr_Winv [OF r(1) new]
  have "dec (sp_cblock this) S a = 0" using Winv_fresh(1) [OF r(1)] n(2) by simp
  then have "(dec (sp_cblock this) S)(a := Suc 0) = inc (sp_cblock this') (dec (sp_cblock this) S)"
    by (simp add: th inc_fresh)
  with n r(2)
  show "Winv {} s' (inc (sp_cblock this') (dec (sp_cblock this) S)) Wh"
    and "next_addr s' = Suc (next_addr s)"
    by simp_all
qed

lemma w_ctor_copy_Winv:
  assumes inv: "Winv {} s S Wh" and run: "WeakPtr_ctor_copy other s = Inr (this, s')"
    and sm: "small n S Wh" and le: "next_addr s \<le> n"
  shows "Winv {} s' S (inc (wp_cblock other) Wh)" and "next_addr s' = next_addr s"
    and "wp_cblock this = wp_cblock other"
proof -
  from run have
    a: "(case wp_cblock other of None \<Rightarrow> Inr s | Some a \<Rightarrow> cblock_AddWeakRef a s) = Inr s'"
    and th: "wp_cblock this = wp_cblock other"
    by (auto simp add: WeakPtr_ctor_copy_def Let_def elim!: bindE_InrE split: option.splits)
  from acquire_weak [OF inv a sm le] th
  show "Winv {} s' S (inc (wp_cblock other) Wh)" and "next_addr s' = next_addr s"
    and "wp_cblock this = wp_cblock other"
    by simp_all
qed

lemma w_ctor_shared_Winv:
  assumes inv: "Winv {} s S Wh" and run: "WeakPtr_ctor_shared other s = Inr (this, s')"
    and sm: "small n S Wh" and le: "next_addr s \<le> n"
  shows "Winv {} s' S (inc (sp_cblock other) Wh)" and "next_addr s' = next_addr s"
    and "wp_cblock this = sp_cblock other"
proof -
  from run have
    a: "(case sp_cblock other of None \<Rightarrow> Inr s | Some a \<Rightarrow> cblock_AddWeakRef a s) = Inr s'"
    and th: "wp_cblock this = sp_cblock other"
    by (auto simp add: WeakPtr_ctor_shared_def Let_def elim!: bindE_InrE split: option.splits)
  from acquire_weak [OF inv a sm le] th
  show "Winv {} s' S (inc (sp_cblock other) Wh)" and "next_addr s' = next_addr s"
    and "wp_cblock this = sp_cblock other"
    by simp_all
qed

lemma w_assign_copy_Winv:
  assumes inv: "Winv {} s S Wh"
    and run: "WeakPtr_assign_copy False this other s = Inr (this', s')"
    and pos1: "\<And>b. wp_cblock this = Some b \<Longrightarrow> 0 < Wh b"
    and sm: "small n S Wh" and le: "next_addr s \<le> n"
  shows "Winv {} s' S (inc (wp_cblock other) (dec (wp_cblock this) Wh))"
    and "next_addr s' = next_addr s" and "wp_cblock this' = wp_cblock other"
proof -
  from run obtain z s1 where rel: "WeakPtr_Release this s = Inr (z, s1)"
    and a: "(case wp_cblock other of None \<Rightarrow> Inr s1 | Some a \<Rightarrow> cblock_AddWeakRef a s1) = Inr s'"
    and th: "wp_cblock this' = wp_cblock other"
    by (auto simp add: WeakPtr_assign_copy_def Let_def elim!: bindE_InrE split: option.splits)
  note r = release_weak [OF inv rel pos1]
  have sm1: "small n S (dec (wp_cblock this) Wh)" using sm by (rule small_dec_w)
  have le1: "next_addr s1 \<le> n" using le r(2) by simp
  from acquire_weak [OF r(1) a sm1 le1] r(2) th
  show "Winv {} s' S (inc (wp_cblock other) (dec (wp_cblock this) Wh))"
    and "next_addr s' = next_addr s" and "wp_cblock this' = wp_cblock other"
    by simp_all
qed

lemma w_assign_shared_Winv:
  assumes inv: "Winv {} s S Wh"
    and run: "WeakPtr_assign_shared this other s = Inr (this', s')"
    and pos1: "\<And>b. wp_cblock this = Some b \<Longrightarrow> 0 < Wh b"
    and sm: "small n S Wh" and le: "next_addr s \<le> n"
  shows "Winv {} s' S (inc (sp_cblock other) (dec (wp_cblock this) Wh))"
    and "next_addr s' = next_addr s" and "wp_cblock this' = sp_cblock other"
proof -
  from run obtain z s1 where rel: "WeakPtr_Release this s = Inr (z, s1)"
    and a: "(case sp_cblock other of None \<Rightarrow> Inr s1 | Some a \<Rightarrow> cblock_AddWeakRef a s1) = Inr s'"
    and th: "wp_cblock this' = sp_cblock other"
    by (auto simp add: WeakPtr_assign_shared_def Let_def elim!: bindE_InrE split: option.splits)
  note r = release_weak [OF inv rel pos1]
  have sm1: "small n S (dec (wp_cblock this) Wh)" using sm by (rule small_dec_w)
  have le1: "next_addr s1 \<le> n" using le r(2) by simp
  from acquire_weak [OF r(1) a sm1 le1] r(2) th
  show "Winv {} s' S (inc (sp_cblock other) (dec (wp_cblock this) Wh))"
    and "next_addr s' = next_addr s" and "wp_cblock this' = sp_cblock other"
    by simp_all
qed

lemma w_assign_move_Winv:
  assumes inv: "Winv {} s S Wh"
    and run: "WeakPtr_assign_move False this other s = Inr (this', other', s')"
    and pos1: "\<And>b. wp_cblock this = Some b \<Longrightarrow> 0 < Wh b"
  shows "Winv {} s' S (dec (wp_cblock this) Wh)"
    and "next_addr s' = next_addr s" and "wp_cblock this' = wp_cblock other"
    and "other' = WeakPtr_Zeroing"
proof -
  from run obtain z s1 where rel: "WeakPtr_Release this s = Inr (z, s1)"
    and s': "s' = s1" and th: "wp_cblock this' = wp_cblock other" and o: "other' = WeakPtr_Zeroing"
    by (auto simp add: WeakPtr_assign_move_def Let_def elim!: bindE_InrE)
  from release_weak [OF inv rel pos1] s' th o
  show "Winv {} s' S (dec (wp_cblock this) Wh)"
    and "next_addr s' = next_addr s" and "wp_cblock this' = wp_cblock other"
    and "other' = WeakPtr_Zeroing"
    by simp_all
qed

lemma SharedFromThis_Winv:
  assumes inv: "Winv {} s S Wh" and run: "SharedFromThis p s = Inr (this, s')"
    and sm: "small n S Wh"
  shows "Winv {} s' (inc (sp_cblock this) S) Wh" and "next_addr s' = next_addr s"
proof -
  from run obtain wt where "WeakPtr_Lock wt s = Inr (this, s')"
    by (auto simp add: SharedFromThis_def split: if_splits option.splits)
  from Lock_Winv [OF inv this sm]
  show "Winv {} s' (inc (sp_cblock this) S) Wh" and "next_addr s' = next_addr s"
    by simp_all
qed

lemma WeakFromThis_Winv:
  assumes inv: "Winv {} s S Wh" and run: "WeakFromThis p s = Inr (this, s')"
    and sm: "small n S Wh" and le: "next_addr s \<le> n"
  shows "Winv {} s' S (inc (wp_cblock this) Wh)" and "next_addr s' = next_addr s"
proof -
  from run obtain wt where "WeakPtr_ctor_copy wt s = Inr (this, s')"
    by (auto simp add: WeakFromThis_def split: if_splits option.splits)
  from w_ctor_copy_Winv [OF inv this sm le]
  show "Winv {} s' S (inc (wp_cblock this) Wh)" and "next_addr s' = next_addr s"
    by simp_all
qed

text \<open>The reference counts of a list of variables.\<close>

definition scount :: "SharedPtr list \<Rightarrow> addr \<Rightarrow> nat" where
  "scount xs a = count_list (map sp_cblock xs) (Some a)"

definition wcount :: "WeakPtr list \<Rightarrow> addr \<Rightarrow> nat" where
  "wcount xs a = count_list (map wp_cblock xs) (Some a)"

lemma srefs_scount: "srefs c = scount (shared c)"
  by (rule ext) (simp add: srefs_def scount_def)

lemma wrefs_wcount: "wrefs c = wcount (weak c)"
  by (rule ext) (simp add: wrefs_def wcount_def)

lemma scount_snoc: "scount (xs @ [sp]) = inc (sp_cblock sp) (scount xs)"
  by (rule ext) (auto simp add: scount_def inc_def)

lemma wcount_snoc: "wcount (xs @ [w]) = inc (wp_cblock w) (wcount xs)"
  by (rule ext) (auto simp add: wcount_def inc_def)

lemma scount_upd:
  "i < length xs \<Longrightarrow> scount (xs[i := sp]) = inc (sp_cblock sp) (dec (sp_cblock (xs ! i)) (scount xs))"
  by (rule ext) (auto simp add: scount_def inc_def dec_def count_map_update)

lemma wcount_upd:
  "i < length xs \<Longrightarrow> wcount (xs[i := w]) = inc (wp_cblock w) (dec (wp_cblock (xs ! i)) (wcount xs))"
  by (rule ext) (auto simp add: wcount_def inc_def dec_def count_map_update)

lemma scount_pos: "i < length xs \<Longrightarrow> sp_cblock (xs ! i) = Some b \<Longrightarrow> 0 < scount xs b"
  unfolding scount_def by (rule count_map_nth_pos)

lemma wcount_pos: "i < length xs \<Longrightarrow> wp_cblock (xs ! i) = Some b \<Longrightarrow> 0 < wcount xs b"
  unfolding wcount_def by (rule count_map_nth_pos)

lemma scount_le: "scount xs a \<le> length xs"
  using count_le_length [of "map sp_cblock xs" "Some a"] by (simp add: scount_def)

lemma wcount_le: "wcount xs a \<le> length xs"
  using count_le_length [of "map wp_cblock xs" "Some a"] by (simp add: wcount_def)

lemma scount_pos_other:
  assumes "i < length xs" and "j < length xs" and "i \<noteq> j" and "sp_cblock (xs ! j) = Some b"
  shows "0 < dec (sp_cblock (xs ! i)) (scount xs) b"
proof -
  have "0 < scount (xs[i := SharedPtr_Zeroing]) b"
    using assms by (intro scount_pos [of j]) simp_all
  then show ?thesis
    using assms(1) by (simp add: scount_upd SharedPtr_Zeroing_def)
qed

lemma inc_dec_same: "(\<And>b. bo = Some b \<Longrightarrow> 0 < S b) \<Longrightarrow> inc bo (dec bo S) = S"
  by (rule ext) (auto simp add: inc_def dec_def)

lemma inc_dec_dec: "(\<And>b. bj = Some b \<Longrightarrow> 0 < dec bi S b) \<Longrightarrow> inc bj (dec bi (dec bj S)) = dec bi S"
  by (rule ext) (auto simp add: inc_def dec_def split: if_splits)

lemma inc_dec_swap:
  "(\<And>b. bi = Some b \<Longrightarrow> 0 < S b) \<Longrightarrow> inc bi (dec bj (inc bj (dec bi S))) = S"
  by (rule ext) (auto simp add: inc_def dec_def)

lemma cinvI:
  assumes "Winv {} s' S' W'" and "mem c' = s'" and "scount (shared c') = S'"
    and "wcount (weak c') = W'"
  shows "cinv c'"
  using assms by (simp add: cinv_def srefs_scount wrefs_wcount)

lemma cinv_facts:
  assumes "cinv c" and "footprint c < 2 ^ 63"
  shows "Winv {} (mem c) (scount (shared c)) (wcount (weak c))"
    and "small (next_addr (mem c) + 2) (scount (shared c)) (wcount (weak c))"
    and "\<And>a. scount (shared c) a + 2 < 2 ^ 64"
proof -
  show "Winv {} (mem c) (scount (shared c)) (wcount (weak c))"
    using assms(1) by (simp add: cinv_def srefs_scount wrefs_wcount)
  have f: "length (shared c) + length (weak c) + next_addr (mem c) < 2 ^ 63"
    using assms(2) by (simp add: footprint_def)
  have big: "(2::nat) ^ 63 + 8 < 2 ^ 64" by simp
  show "small (next_addr (mem c) + 2) (scount (shared c)) (wcount (weak c))"
    unfolding small_def
  proof (intro allI conjI)
    fix a
    show "scount (shared c) a + 1 < 2 ^ 64"
      using f big scount_le [of "shared c" a] by linarith
    show "wcount (weak c) a + (next_addr (mem c) + 2) + 1 < 2 ^ 64"
      using f big wcount_le [of "weak c" a] by linarith
  qed
  fix a
  show "scount (shared c) a + 2 < 2 ^ 64"
    using f big scount_le [of "shared c" a] by linarith
qed

section \<open>Every operation keeps the invariant\<close>

text \<open>One operation keeps the invariant and adds at most three to the footprint.\<close>

definition stepped :: "config \<Rightarrow> config \<Rightarrow> bool" where
  "stepped c c' \<longleftrightarrow> cinv c' \<and> footprint c' \<le> footprint c + 3"

lemma stepped_same: "cinv c \<Longrightarrow> stepped c c"
  by (simp add: stepped_def)

lemma push_shared_stepped:
  assumes "Winv {} s' (inc (sp_cblock sp) (scount (shared c))) (wcount (weak c))"
    and "push_shared c (sp, s') = Inr c'"
    and "next_addr s' \<le> next_addr (mem c) + 2"
  shows "stepped c c'"
proof -
  from assms(2) have c': "c' = c\<lparr>mem := s', shared := shared c @ [sp]\<rparr>"
    by (simp add: push_shared_def)
  have "cinv c'"
    using assms(1) by (rule cinvI) (simp_all add: c' scount_snoc)
  then show ?thesis
    using assms(3) by (simp add: stepped_def footprint_def c')
qed

lemma set_shared_stepped:
  assumes "i < length (shared c)"
    and "Winv {} s' (inc (sp_cblock sp) (dec (sp_cblock (shared c ! i)) (scount (shared c))))
           (wcount (weak c))"
    and "set_shared c i (sp, s') = Inr c'"
    and "next_addr s' \<le> next_addr (mem c) + 2"
  shows "stepped c c'"
proof -
  from assms(3) have c': "c' = c\<lparr>mem := s', shared := (shared c)[i := sp]\<rparr>"
    by (simp add: set_shared_def)
  have "cinv c'"
    using assms(2) by (rule cinvI) (simp_all add: c' scount_upd assms(1))
  then show ?thesis
    using assms(4) by (simp add: stepped_def footprint_def c')
qed

lemma push_weak_stepped:
  assumes "Winv {} s' (scount (shared c)) (inc (wp_cblock w) (wcount (weak c)))"
    and "push_weak c (w, s') = Inr c'"
    and "next_addr s' \<le> next_addr (mem c) + 2"
  shows "stepped c c'"
proof -
  from assms(2) have c': "c' = c\<lparr>mem := s', weak := weak c @ [w]\<rparr>"
    by (simp add: push_weak_def)
  have "cinv c'"
    using assms(1) by (rule cinvI) (simp_all add: c' wcount_snoc)
  then show ?thesis
    using assms(3) by (simp add: stepped_def footprint_def c')
qed

lemma set_weak_stepped:
  assumes "i < length (weak c)"
    and "Winv {} s' (scount (shared c))
           (inc (wp_cblock w) (dec (wp_cblock (weak c ! i)) (wcount (weak c))))"
    and "set_weak c i (w, s') = Inr c'"
    and "next_addr s' \<le> next_addr (mem c) + 2"
  shows "stepped c c'"
proof -
  from assms(3) have c': "c' = c\<lparr>mem := s', weak := (weak c)[i := w]\<rparr>"
    by (simp add: set_weak_def)
  have "cinv c'"
    using assms(2) by (rule cinvI) (simp_all add: c' wcount_upd assms(1))
  then show ?thesis
    using assms(4) by (simp add: stepped_def footprint_def c')
qed

text \<open>Constructors of shared pointers\<close>

lemma step_S_default:
  assumes inv: "cinv c" and fp: "footprint c < 2 ^ 63" and run: "step esft S_default c = Inr c'"
  shows "stepped c c'"
proof -
  note f = cinv_facts [OF inv fp]
  from run have p: "push_shared c (SharedPtr_ctor_default, mem c) = Inr c'" by simp
  show ?thesis
    by (rule push_shared_stepped [OF _ p]) (simp_all add: f SharedPtr_ctor_default_def)
qed

lemma step_S_adopt_new:
  assumes inv: "cinv c" and fp: "footprint c < 2 ^ 63" and run: "step esft S_adopt_new c = Inr c'"
  shows "stepped c c'"
proof -
  note f = cinv_facts [OF inv fp]
  obtain p s1 where new: "new_object (mem c) = (p, s1)" by (cases "new_object (mem c)")
  with run obtain this s' where ctor: "SharedPtr_ctor_raw esft p s1 = Inr (this, s')"
    and push: "push_shared c (this, s') = Inr c'"
    by (auto elim!: bindE_InrE)
  note o = new_object_Winv [OF f(1) new]
  have le: "Suc (next_addr s1) \<le> next_addr (mem c) + 2" using o(2) by simp
  note r = ctor_raw_Winv [OF o(1) ctor f(2) le]
  show ?thesis
    by (rule push_shared_stepped [OF r(1) push]) (simp add: r(2) o(2))
qed

lemma step_S_adopt_null:
  assumes inv: "cinv c" and fp: "footprint c < 2 ^ 63" and run: "step esft S_adopt_null c = Inr c'"
  shows "stepped c c'"
proof -
  note f = cinv_facts [OF inv fp]
  from run obtain this s' where ctor: "SharedPtr_ctor_raw esft NullPtr (mem c) = Inr (this, s')"
    and push: "push_shared c (this, s') = Inr c'"
    by (auto elim!: bindE_InrE)
  have le: "Suc (next_addr (mem c)) \<le> next_addr (mem c) + 2" by simp
  note r = ctor_raw_Winv [OF f(1) ctor f(2) le]
  show ?thesis
    by (rule push_shared_stepped [OF r(1) push]) (simp add: r(2))
qed

lemma step_S_make:
  assumes inv: "cinv c" and fp: "footprint c < 2 ^ 63" and run: "step esft S_make c = Inr c'"
  shows "stepped c c'"
proof -
  note f = cinv_facts [OF inv fp]
  from run obtain this s' where ctor: "MakeShared esft T_default () (mem c) = Inr (this, s')"
    and push: "push_shared c (this, s') = Inr c'"
    by (auto elim!: bindE_InrE)
  have le: "Suc (next_addr (mem c)) \<le> next_addr (mem c) + 2" by simp
  note r = MakeShared_Winv [OF f(1) ctor f(2) le]
  show ?thesis
    by (rule push_shared_stepped [OF r(1) push]) (simp add: r(2))
qed

lemma step_S_copy:
  assumes inv: "cinv c" and fp: "footprint c < 2 ^ 63" and run: "step esft (S_copy i) c = Inr c'"
  shows "stepped c c'"
proof (cases "i < length (shared c)")
  case False
  with run inv show ?thesis by (simp add: stepped_same)
next
  case True
  note f = cinv_facts [OF inv fp]
  from run True obtain this s' where
    ctor: "SharedPtr_ctor_copy esft (shared c ! i) (mem c) = Inr (this, s')"
    and push: "push_shared c (this, s') = Inr c'"
    by (auto elim!: bindE_InrE)
  have le: "next_addr (mem c) \<le> next_addr (mem c) + 2" by simp
  note r = ctor_copy_Winv [OF f(1) ctor scount_pos [OF True] f(2) f(3) le]
  show ?thesis
    by (rule push_shared_stepped [OF _ push]) (simp_all add: r)
qed

lemma step_S_move:
  assumes inv: "cinv c" and fp: "footprint c < 2 ^ 63" and run: "step esft (S_move i) c = Inr c'"
  shows "stepped c c'"
proof (cases "i < length (shared c)")
  case False
  with run inv show ?thesis by (simp add: stepped_same)
next
  case True
  note f = cinv_facts [OF inv fp]
  from run True obtain this other s' where
    ctor: "SharedPtr_ctor_move esft (shared c ! i) (mem c) = Inr (this, other, s')"
    and c': "c' = c\<lparr>mem := s', shared := (shared c)[i := other] @ [this]\<rparr>"
    by (auto elim!: bindE_InrE)
  have le: "next_addr (mem c) \<le> next_addr (mem c) + 2" by simp
  note r = ctor_move_Winv [OF f(1) ctor f(2) le]
  have cnt: "scount ((shared c)[i := other] @ [this]) = scount (shared c)"
    using True scount_pos [OF True]
    by (simp add: scount_snoc scount_upd r SharedPtr_Zeroing_def inc_dec_same)
  have "cinv c'"
    using r(1) by (rule cinvI) (simp_all add: c' cnt)
  then show ?thesis
    by (simp add: stepped_def footprint_def c' r)
qed

lemma step_S_alias:
  assumes inv: "cinv c" and fp: "footprint c < 2 ^ 63" and run: "step esft (S_alias i p) c = Inr c'"
  shows "stepped c c'"
proof (cases "i < length (shared c)")
  case False
  with run inv show ?thesis by (simp add: stepped_same)
next
  case True
  note f = cinv_facts [OF inv fp]
  from run True obtain this s' where
    ctor: "SharedPtr_ctor_alias (shared c ! i) p (mem c) = Inr (this, s')"
    and push: "push_shared c (this, s') = Inr c'"
    by (auto elim!: bindE_InrE)
  note r = ctor_alias_Winv [OF f(1) ctor scount_pos [OF True] f(2)]
  show ?thesis
    by (rule push_shared_stepped [OF _ push]) (simp_all add: r)
qed

lemma step_S_promote:
  assumes inv: "cinv c" and fp: "footprint c < 2 ^ 63" and run: "step esft (S_promote j) c = Inr c'"
  shows "stepped c c'"
proof (cases "j < length (weak c)")
  case False
  with run inv show ?thesis by (simp add: stepped_same)
next
  case True
  note f = cinv_facts [OF inv fp]
  show ?thesis
  proof (cases "SharedPtr_ctor_weak (weak c ! j) (mem c)")
    case (Inl e)
    with run True have "c' = c" by (simp split: if_splits)
    with inv show ?thesis by (simp add: stepped_same)
  next
    case (Inr r)
    obtain this s' where r: "r = (this, s')" by (cases r)
    with Inr run True have push: "push_shared c (this, s') = Inr c'" by simp
    note q = ctor_weak_Winv [OF f(1) Inr [unfolded r] f(2)]
    show ?thesis
      by (rule push_shared_stepped [OF _ push]) (simp_all add: q)
  qed
qed

text \<open>Assignment, reset and swap of shared pointers\<close>

lemma step_S_assign:
  assumes inv: "cinv c" and fp: "footprint c < 2 ^ 63" and run: "step esft (S_assign i j) c = Inr c'"
  shows "stepped c c'"
proof (cases "i < length (shared c) \<and> j < length (shared c)")
  case False
  with run inv show ?thesis by (simp add: stepped_same)
next
  case True
  then have i: "i < length (shared c)" and j: "j < length (shared c)" by simp_all
  note f = cinv_facts [OF inv fp]
  show ?thesis
  proof (cases "i = j")
    case True
    with run i have "c' = c\<lparr>mem := mem c, shared := (shared c)[i := shared c ! i]\<rparr>"
      by (simp add: SharedPtr_assign_copy_def set_shared_def)
    then have "c' = c" by simp
    with inv show ?thesis by (simp add: stepped_same)
  next
    case False
    with run i j obtain this s' where
      asg: "SharedPtr_assign_copy esft False (shared c ! i) (shared c ! j) (mem c) = Inr (this, s')"
      and set: "set_shared c i (this, s') = Inr c'"
      by (auto elim!: bindE_InrE)
    note r = assign_copy_Winv [OF f(1) asg scount_pos [OF i] scount_pos_other [OF i j False] f(2)]
    show ?thesis
      by (rule set_shared_stepped [OF i _ set]) (simp_all add: r)
  qed
qed

lemma step_S_assign_move:
  assumes inv: "cinv c" and fp: "footprint c < 2 ^ 63"
    and run: "step esft (S_assign_move i j) c = Inr c'"
  shows "stepped c c'"
proof (cases "i < length (shared c) \<and> j < length (shared c)")
  case False
  with run inv show ?thesis by (simp add: stepped_same)
next
  case True
  then have i: "i < length (shared c)" and j: "j < length (shared c)" by simp_all
  note f = cinv_facts [OF inv fp]
  show ?thesis
  proof (cases "i = j")
    case True
    with run i have "c' = c\<lparr>mem := mem c, shared := (shared c)[i := shared c ! i]\<rparr>"
      by (simp add: SharedPtr_assign_move_def)
    then have "c' = c" by simp
    with inv show ?thesis by (simp add: stepped_same)
  next
    case False
    with run i j obtain this other s' where
      asg: "SharedPtr_assign_move esft False (shared c ! i) (shared c ! j) (mem c)
              = Inr (this, other, s')"
      and c': "c' = c\<lparr>mem := s', shared := (shared c)[j := other, i := this]\<rparr>"
      by (auto elim!: bindE_InrE)
    note r = assign_move_Winv [OF f(1) asg scount_pos [OF i]]
    have cnt: "scount ((shared c)[j := other, i := this])
                 = dec (sp_cblock (shared c ! i)) (scount (shared c))"
      using i j False scount_pos_other [OF i j False]
      by (simp add: scount_upd r SharedPtr_Zeroing_def inc_dec_dec)
    have "cinv c'"
      using r(1) by (rule cinvI) (simp_all add: c' cnt)
    then show ?thesis
      by (simp add: stepped_def footprint_def c' r)
  qed
qed

lemma release_slot_stepped:
  assumes inv: "cinv c" and fp: "footprint c < 2 ^ 63" and i: "i < length (shared c)"
    and rel: "SharedPtr_Release esft (shared c ! i) (mem c) = Inr (this, s')"
    and set: "set_shared c i (this, s') = Inr c'"
  shows "stepped c c'"
proof -
  note f = cinv_facts [OF inv fp]
  note r = release_strong [OF f(1) rel scount_pos [OF i]]
  show ?thesis
    by (rule set_shared_stepped [OF i _ set]) (simp_all add: r SharedPtr_Zeroing_def)
qed

lemma step_S_reset:
  assumes inv: "cinv c" and fp: "footprint c < 2 ^ 63" and run: "step esft (S_reset i) c = Inr c'"
  shows "stepped c c'"
proof (cases "i < length (shared c)")
  case False
  with run inv show ?thesis by (simp add: stepped_same)
next
  case True
  with run obtain this s' where "SharedPtr_Release esft (shared c ! i) (mem c) = Inr (this, s')"
    and "set_shared c i (this, s') = Inr c'"
    by (auto simp add: SharedPtr_Reset_def elim!: bindE_InrE)
  with inv fp True show ?thesis by (rule release_slot_stepped)
qed

lemma step_S_dtor:
  assumes inv: "cinv c" and fp: "footprint c < 2 ^ 63" and run: "step esft (S_dtor i) c = Inr c'"
  shows "stepped c c'"
proof (cases "i < length (shared c)")
  case False
  with run inv show ?thesis by (simp add: stepped_same)
next
  case True
  with run obtain this s' where "SharedPtr_Release esft (shared c ! i) (mem c) = Inr (this, s')"
    and "set_shared c i (this, s') = Inr c'"
    by (auto simp add: SharedPtr_dtor_def elim!: bindE_InrE)
  with inv fp True show ?thesis by (rule release_slot_stepped)
qed

lemma step_S_reset_new:
  assumes inv: "cinv c" and fp: "footprint c < 2 ^ 63" and run: "step esft (S_reset_new i) c = Inr c'"
  shows "stepped c c'"
proof (cases "i < length (shared c)")
  case False
  with run inv show ?thesis by (simp add: stepped_same)
next
  case True
  note f = cinv_facts [OF inv fp]
  obtain p s1 where new: "new_object (mem c) = (p, s1)" by (cases "new_object (mem c)")
  with run True obtain this s' where
    rst: "SharedPtr_Reset_ptr esft (shared c ! i) p s1 = Inr (this, s')"
    and set: "set_shared c i (this, s') = Inr c'"
    by (auto elim!: bindE_InrE)
  note o = new_object_Winv [OF f(1) new]
  note r = Reset_ptr_Winv [OF o(1) rst scount_pos [OF True]]
  have le: "next_addr s' \<le> next_addr (mem c) + 2" using r(2) o(2) by simp
  show ?thesis
    using True r(1) set le by (rule set_shared_stepped)
qed

lemma step_S_reset_null:
  assumes inv: "cinv c" and fp: "footprint c < 2 ^ 63" and run: "step esft (S_reset_null i) c = Inr c'"
  shows "stepped c c'"
proof (cases "i < length (shared c)")
  case False
  with run inv show ?thesis by (simp add: stepped_same)
next
  case True
  note f = cinv_facts [OF inv fp]
  from run True obtain this s' where
    rst: "SharedPtr_Reset_ptr esft (shared c ! i) NullPtr (mem c) = Inr (this, s')"
    and set: "set_shared c i (this, s') = Inr c'"
    by (auto elim!: bindE_InrE)
  note r = Reset_ptr_Winv [OF f(1) rst scount_pos [OF True]]
  have le: "next_addr s' \<le> next_addr (mem c) + 2" using r(2) by simp
  show ?thesis
    using True r(1) set le by (rule set_shared_stepped)
qed

lemma step_S_swap:
  assumes inv: "cinv c" and fp: "footprint c < 2 ^ 63" and run: "step esft (S_swap i j) c = Inr c'"
  shows "stepped c c'"
proof (cases "i < length (shared c) \<and> j < length (shared c)")
  case False
  with run inv show ?thesis by (simp add: stepped_same)
next
  case True
  then have i: "i < length (shared c)" and j: "j < length (shared c)" by simp_all
  note f = cinv_facts [OF inv fp]
  from run True have c': "c' = c\<lparr>shared := (shared c)[i := shared c ! j, j := shared c ! i]\<rparr>"
    by (simp add: SharedPtr_Swap_def)
  have cnt: "scount ((shared c)[i := shared c ! j, j := shared c ! i]) = scount (shared c)"
  proof (cases "i = j")
    case True
    then show ?thesis by simp
  next
    case False
    then show ?thesis
      using i j scount_pos [OF i]
      by (simp add: scount_upd inc_dec_swap)
  qed
  have "cinv c'"
    using f(1) by (rule cinvI) (simp_all add: c' cnt)
  then show ?thesis
    by (simp add: stepped_def footprint_def c')
qed

text \<open>Weak pointers\<close>

lemma wcount_pos_other:
  assumes "i < length xs" and "j < length xs" and "i \<noteq> j" and "wp_cblock (xs ! j) = Some b"
  shows "0 < dec (wp_cblock (xs ! i)) (wcount xs) b"
proof -
  have "0 < wcount (xs[i := WeakPtr_Zeroing]) b"
    using assms by (intro wcount_pos [of j]) simp_all
  then show ?thesis
    using assms(1) by (simp add: wcount_upd WeakPtr_Zeroing_def)
qed

lemma step_W_default:
  assumes inv: "cinv c" and fp: "footprint c < 2 ^ 63" and run: "step esft W_default c = Inr c'"
  shows "stepped c c'"
proof -
  note f = cinv_facts [OF inv fp]
  from run have p: "push_weak c (WeakPtr_ctor_default, mem c) = Inr c'" by simp
  show ?thesis
    by (rule push_weak_stepped [OF _ p]) (simp_all add: f WeakPtr_ctor_default_def)
qed

lemma step_W_copy:
  assumes inv: "cinv c" and fp: "footprint c < 2 ^ 63" and run: "step esft (W_copy j) c = Inr c'"
  shows "stepped c c'"
proof (cases "j < length (weak c)")
  case False
  with run inv show ?thesis by (simp add: stepped_same)
next
  case True
  note f = cinv_facts [OF inv fp]
  from run True obtain this s' where
    ctor: "WeakPtr_ctor_copy (weak c ! j) (mem c) = Inr (this, s')"
    and push: "push_weak c (this, s') = Inr c'"
    by (auto elim!: bindE_InrE)
  have le: "next_addr (mem c) \<le> next_addr (mem c) + 2" by simp
  note r = w_ctor_copy_Winv [OF f(1) ctor f(2) le]
  have w: "Winv {} s' (scount (shared c)) (inc (wp_cblock this) (wcount (weak c)))"
    using r by simp
  have n: "next_addr s' \<le> next_addr (mem c) + 2" using r by simp
  show ?thesis
    using w push n by (rule push_weak_stepped)
qed

lemma step_W_move:
  assumes inv: "cinv c" and fp: "footprint c < 2 ^ 63" and run: "step esft (W_move j) c = Inr c'"
  shows "stepped c c'"
proof (cases "j < length (weak c)")
  case False
  with run inv show ?thesis by (simp add: stepped_same)
next
  case True
  note f = cinv_facts [OF inv fp]
  let ?nw = "\<lparr>wp_ptr = wp_ptr (weak c ! j), wp_cblock = wp_cblock (weak c ! j)\<rparr>"
  from run True have c': "c' = c\<lparr>weak := (weak c)[j := WeakPtr_Zeroing] @ [?nw]\<rparr>"
    by (simp add: WeakPtr_ctor_move_def)
  have cnt: "wcount ((weak c)[j := WeakPtr_Zeroing] @ [?nw]) = wcount (weak c)"
    using True wcount_pos [OF True]
    by (simp add: wcount_snoc wcount_upd WeakPtr_Zeroing_def inc_dec_same)
  have "cinv c'"
    using f(1) by (rule cinvI) (simp_all add: c' cnt)
  then show ?thesis
    by (simp add: stepped_def footprint_def c')
qed

lemma step_W_demote:
  assumes inv: "cinv c" and fp: "footprint c < 2 ^ 63" and run: "step esft (W_demote i) c = Inr c'"
  shows "stepped c c'"
proof (cases "i < length (shared c)")
  case False
  with run inv show ?thesis by (simp add: stepped_same)
next
  case True
  note f = cinv_facts [OF inv fp]
  from run True obtain this s' where
    ctor: "WeakPtr_ctor_shared (shared c ! i) (mem c) = Inr (this, s')"
    and push: "push_weak c (this, s') = Inr c'"
    by (auto elim!: bindE_InrE)
  have le: "next_addr (mem c) \<le> next_addr (mem c) + 2" by simp
  note r = w_ctor_shared_Winv [OF f(1) ctor f(2) le]
  have w: "Winv {} s' (scount (shared c)) (inc (wp_cblock this) (wcount (weak c)))"
    using r by simp
  have n: "next_addr s' \<le> next_addr (mem c) + 2" using r by simp
  show ?thesis
    using w push n by (rule push_weak_stepped)
qed

lemma step_W_assign:
  assumes inv: "cinv c" and fp: "footprint c < 2 ^ 63" and run: "step esft (W_assign i j) c = Inr c'"
  shows "stepped c c'"
proof (cases "i < length (weak c) \<and> j < length (weak c)")
  case False
  with run inv show ?thesis by (simp add: stepped_same)
next
  case True
  then have i: "i < length (weak c)" and j: "j < length (weak c)" by simp_all
  note f = cinv_facts [OF inv fp]
  show ?thesis
  proof (cases "i = j")
    case True
    with run i have "c' = c\<lparr>mem := mem c, weak := (weak c)[i := weak c ! i]\<rparr>"
      by (simp add: WeakPtr_assign_copy_def set_weak_def)
    then have "c' = c" by simp
    with inv show ?thesis by (simp add: stepped_same)
  next
    case False
    with run i j obtain this s' where
      asg: "WeakPtr_assign_copy False (weak c ! i) (weak c ! j) (mem c) = Inr (this, s')"
      and st: "set_weak c i (this, s') = Inr c'"
      by (auto elim!: bindE_InrE)
    have le: "next_addr (mem c) \<le> next_addr (mem c) + 2" by simp
    note r = w_assign_copy_Winv [OF f(1) asg wcount_pos [OF i] f(2) le]
    have w: "Winv {} s' (scount (shared c))
               (inc (wp_cblock this) (dec (wp_cblock (weak c ! i)) (wcount (weak c))))"
      using r by simp
    have n: "next_addr s' \<le> next_addr (mem c) + 2" using r by simp
    show ?thesis
      using i w st n by (rule set_weak_stepped)
  qed
qed

lemma step_W_assign_shared:
  assumes inv: "cinv c" and fp: "footprint c < 2 ^ 63"
    and run: "step esft (W_assign_shared i j) c = Inr c'"
  shows "stepped c c'"
proof (cases "i < length (weak c) \<and> j < length (shared c)")
  case False
  with run inv show ?thesis by (simp add: stepped_same)
next
  case True
  then have i: "i < length (weak c)" and j: "j < length (shared c)" by simp_all
  note f = cinv_facts [OF inv fp]
  from run i j obtain this s' where
    asg: "WeakPtr_assign_shared (weak c ! i) (shared c ! j) (mem c) = Inr (this, s')"
    and st: "set_weak c i (this, s') = Inr c'"
    by (auto elim!: bindE_InrE)
  have le: "next_addr (mem c) \<le> next_addr (mem c) + 2" by simp
  note r = w_assign_shared_Winv [OF f(1) asg wcount_pos [OF i] f(2) le]
  have w: "Winv {} s' (scount (shared c))
             (inc (wp_cblock this) (dec (wp_cblock (weak c ! i)) (wcount (weak c))))"
    using r by simp
  have n: "next_addr s' \<le> next_addr (mem c) + 2" using r by simp
  show ?thesis
    using i w st n by (rule set_weak_stepped)
qed

lemma step_W_assign_move:
  assumes inv: "cinv c" and fp: "footprint c < 2 ^ 63"
    and run: "step esft (W_assign_move i j) c = Inr c'"
  shows "stepped c c'"
proof (cases "i < length (weak c) \<and> j < length (weak c)")
  case False
  with run inv show ?thesis by (simp add: stepped_same)
next
  case True
  then have i: "i < length (weak c)" and j: "j < length (weak c)" by simp_all
  note f = cinv_facts [OF inv fp]
  show ?thesis
  proof (cases "i = j")
    case True
    with run i have "c' = c\<lparr>mem := mem c, weak := (weak c)[i := weak c ! i]\<rparr>"
      by (simp add: WeakPtr_assign_move_def)
    then have "c' = c" by simp
    with inv show ?thesis by (simp add: stepped_same)
  next
    case False
    with run i j obtain this other s' where
      asg: "WeakPtr_assign_move False (weak c ! i) (weak c ! j) (mem c) = Inr (this, other, s')"
      and c': "c' = c\<lparr>mem := s', weak := (weak c)[j := other, i := this]\<rparr>"
      by (auto elim!: bindE_InrE)
    note r = w_assign_move_Winv [OF f(1) asg wcount_pos [OF i]]
    have cnt: "wcount ((weak c)[j := other, i := this])
                 = dec (wp_cblock (weak c ! i)) (wcount (weak c))"
      using i j False wcount_pos_other [OF i j False]
      by (simp add: wcount_upd r WeakPtr_Zeroing_def inc_dec_dec)
    have "cinv c'"
      using r(1) by (rule cinvI) (simp_all add: c' cnt)
    then show ?thesis
      by (simp add: stepped_def footprint_def c' r)
  qed
qed

lemma release_wslot_stepped:
  assumes inv: "cinv c" and fp: "footprint c < 2 ^ 63" and i: "i < length (weak c)"
    and rel: "WeakPtr_Release (weak c ! i) (mem c) = Inr (this, s')"
    and st: "set_weak c i (this, s') = Inr c'"
  shows "stepped c c'"
proof -
  note f = cinv_facts [OF inv fp]
  note r = release_weak [OF f(1) rel wcount_pos [OF i]]
  have w: "Winv {} s' (scount (shared c))
             (inc (wp_cblock this) (dec (wp_cblock (weak c ! i)) (wcount (weak c))))"
    using r by (simp add: WeakPtr_Zeroing_def)
  have n: "next_addr s' \<le> next_addr (mem c) + 2" using r by simp
  show ?thesis
    using i w st n by (rule set_weak_stepped)
qed

lemma step_W_reset:
  assumes inv: "cinv c" and fp: "footprint c < 2 ^ 63" and run: "step esft (W_reset i) c = Inr c'"
  shows "stepped c c'"
proof (cases "i < length (weak c)")
  case False
  with run inv show ?thesis by (simp add: stepped_same)
next
  case True
  with run obtain this s' where "WeakPtr_Release (weak c ! i) (mem c) = Inr (this, s')"
    and "set_weak c i (this, s') = Inr c'"
    by (auto simp add: WeakPtr_Reset_def elim!: bindE_InrE)
  with inv fp True show ?thesis by (rule release_wslot_stepped)
qed

lemma step_W_dtor:
  assumes inv: "cinv c" and fp: "footprint c < 2 ^ 63" and run: "step esft (W_dtor i) c = Inr c'"
  shows "stepped c c'"
proof (cases "i < length (weak c)")
  case False
  with run inv show ?thesis by (simp add: stepped_same)
next
  case True
  with run obtain this s' where "WeakPtr_Release (weak c ! i) (mem c) = Inr (this, s')"
    and "set_weak c i (this, s') = Inr c'"
    by (auto simp add: WeakPtr_dtor_def elim!: bindE_InrE)
  with inv fp True show ?thesis by (rule release_wslot_stepped)
qed

lemma step_W_swap:
  assumes inv: "cinv c" and fp: "footprint c < 2 ^ 63" and run: "step esft (W_swap i j) c = Inr c'"
  shows "stepped c c'"
proof (cases "i < length (weak c) \<and> j < length (weak c)")
  case False
  with run inv show ?thesis by (simp add: stepped_same)
next
  case True
  then have i: "i < length (weak c)" and j: "j < length (weak c)" by simp_all
  note f = cinv_facts [OF inv fp]
  from run True have c': "c' = c\<lparr>weak := (weak c)[i := weak c ! j, j := weak c ! i]\<rparr>"
    by (simp add: WeakPtr_Swap_def)
  have cnt: "wcount ((weak c)[i := weak c ! j, j := weak c ! i]) = wcount (weak c)"
  proof (cases "i = j")
    case True
    then show ?thesis by simp
  next
    case False
    then show ?thesis
      using i j wcount_pos [OF i]
      by (simp add: wcount_upd inc_dec_swap)
  qed
  have "cinv c'"
    using f(1) by (rule cinvI) (simp_all add: c' cnt)
  then show ?thesis
    by (simp add: stepped_def footprint_def c')
qed

lemma step_W_lock:
  assumes inv: "cinv c" and fp: "footprint c < 2 ^ 63" and run: "step esft (W_lock j) c = Inr c'"
  shows "stepped c c'"
proof (cases "j < length (weak c)")
  case False
  with run inv show ?thesis by (simp add: stepped_same)
next
  case True
  note f = cinv_facts [OF inv fp]
  from run True obtain this s' where
    lock: "WeakPtr_Lock (weak c ! j) (mem c) = Inr (this, s')"
    and push: "push_shared c (this, s') = Inr c'"
    by (auto elim!: bindE_InrE)
  note r = Lock_Winv [OF f(1) lock f(2)]
  have n: "next_addr s' \<le> next_addr (mem c) + 2" using r by simp
  show ?thesis
    using r(1) push n by (rule push_shared_stepped)
qed

text \<open>EnableSharedFromThis\<close>

lemma step_E_shared_from_this:
  assumes inv: "cinv c" and fp: "footprint c < 2 ^ 63"
    and run: "step esft (E_shared_from_this p) c = Inr c'"
  shows "stepped c c'"
proof (cases esft)
  case False
  with run inv show ?thesis by (simp add: stepped_same)
next
  case True
  note f = cinv_facts [OF inv fp]
  from run True obtain this s' where
    sft: "SharedFromThis p (mem c) = Inr (this, s')"
    and push: "push_shared c (this, s') = Inr c'"
    by (auto elim!: bindE_InrE)
  note r = SharedFromThis_Winv [OF f(1) sft f(2)]
  have n: "next_addr s' \<le> next_addr (mem c) + 2" using r by simp
  show ?thesis
    using r(1) push n by (rule push_shared_stepped)
qed

lemma step_E_weak_from_this:
  assumes inv: "cinv c" and fp: "footprint c < 2 ^ 63"
    and run: "step esft (E_weak_from_this p) c = Inr c'"
  shows "stepped c c'"
proof (cases esft)
  case False
  with run inv show ?thesis by (simp add: stepped_same)
next
  case True
  note f = cinv_facts [OF inv fp]
  from run True obtain this s' where
    wft: "WeakFromThis p (mem c) = Inr (this, s')"
    and push: "push_weak c (this, s') = Inr c'"
    by (auto elim!: bindE_InrE)
  have le: "next_addr (mem c) \<le> next_addr (mem c) + 2" by simp
  note r = WeakFromThis_Winv [OF f(1) wft f(2) le]
  have n: "next_addr s' \<le> next_addr (mem c) + 2" using r by simp
  show ?thesis
    using r(1) push n by (rule push_weak_stepped)
qed

section \<open>Every program keeps the invariant\<close>

text \<open>An object of the program's own\<close>

lemma step_O_new:
  assumes inv: "cinv c" and fp: "footprint c < 2 ^ 63" and run: "step esft O_new c = Inr c'"
  shows "stepped c c'"
proof -
  note f = cinv_facts [OF inv fp]
  obtain p s1 where new: "new_object (mem c) = (p, s1)" by (cases "new_object (mem c)")
  with run have c': "c' = c\<lparr>mem := s1\<rparr>" by simp
  note o = new_object_Winv [OF f(1) new]
  have "cinv c'"
    using o(1) by (rule cinvI) (simp_all add: c')
  then show ?thesis
    by (simp add: stepped_def footprint_def c' o(2))
qed

lemma step_stepped:
  assumes inv: "cinv c" and fp: "footprint c < 2 ^ 63" and run: "step esft x c = Inr c'"
  shows "stepped c c'"
proof (cases x)
  case S_default
  with inv fp run show ?thesis by (simp only: step_S_default)
next
  case S_adopt_new
  with inv fp run show ?thesis by (simp only: step_S_adopt_new)
next
  case S_adopt_null
  with inv fp run show ?thesis by (simp only: step_S_adopt_null)
next
  case S_make
  with inv fp run show ?thesis by (simp only: step_S_make)
next
  case (S_copy i)
  with inv fp run show ?thesis by (simp only: step_S_copy)
next
  case (S_move i)
  with inv fp run show ?thesis by (simp only: step_S_move)
next
  case (S_alias i p)
  with inv fp run show ?thesis by (simp only: step_S_alias)
next
  case (S_promote i)
  with inv fp run show ?thesis by (simp only: step_S_promote)
next
  case (S_assign i j)
  with inv fp run show ?thesis by (simp only: step_S_assign)
next
  case (S_assign_move i j)
  with inv fp run show ?thesis by (simp only: step_S_assign_move)
next
  case (S_reset i)
  with inv fp run show ?thesis by (simp only: step_S_reset)
next
  case (S_reset_new i)
  with inv fp run show ?thesis by (simp only: step_S_reset_new)
next
  case (S_reset_null i)
  with inv fp run show ?thesis by (simp only: step_S_reset_null)
next
  case (S_dtor i)
  with inv fp run show ?thesis by (simp only: step_S_dtor)
next
  case (S_swap i j)
  with inv fp run show ?thesis by (simp only: step_S_swap)
next
  case W_default
  with inv fp run show ?thesis by (simp only: step_W_default)
next
  case (W_copy i)
  with inv fp run show ?thesis by (simp only: step_W_copy)
next
  case (W_move i)
  with inv fp run show ?thesis by (simp only: step_W_move)
next
  case (W_demote i)
  with inv fp run show ?thesis by (simp only: step_W_demote)
next
  case (W_assign i j)
  with inv fp run show ?thesis by (simp only: step_W_assign)
next
  case (W_assign_shared i j)
  with inv fp run show ?thesis by (simp only: step_W_assign_shared)
next
  case (W_assign_move i j)
  with inv fp run show ?thesis by (simp only: step_W_assign_move)
next
  case (W_reset i)
  with inv fp run show ?thesis by (simp only: step_W_reset)
next
  case (W_dtor i)
  with inv fp run show ?thesis by (simp only: step_W_dtor)
next
  case (W_swap i j)
  with inv fp run show ?thesis by (simp only: step_W_swap)
next
  case (W_lock i)
  with inv fp run show ?thesis by (simp only: step_W_lock)
next
  case (E_shared_from_this p)
  with inv fp run show ?thesis by (simp only: step_E_shared_from_this)
next
  case (E_weak_from_this p)
  with inv fp run show ?thesis by (simp only: step_E_weak_from_this)
next
  case O_new
  with inv fp run show ?thesis by (simp only: step_O_new)
qed

lemma cinv_init: "cinv init_config"
  by (simp add: cinv_def Winv_def hinv_def ok_def objs_fresh_def init_config_def empty_heap_def
      srefs_def wrefs_def orefs_def events_of_def)

lemma footprint_init: "footprint init_config = 0"
  by (simp add: footprint_def init_config_def empty_heap_def)

lemma run_cinv:
  "cinv c \<Longrightarrow> footprint c + 3 * length ops < 2 ^ 63 \<Longrightarrow> run esft ops c = Inr c'
     \<Longrightarrow> cinv c' \<and> footprint c' \<le> footprint c + 3 * length ops"
proof (induction ops arbitrary: c)
  case Nil
  then show ?case by simp
next
  case (Cons x xs)
  from Cons.prems(3) obtain c1 where 1: "step esft x c = Inr c1" and 2: "run esft xs c1 = Inr c'"
    by (auto elim!: bindE_InrE)
  from Cons.prems(2) have "footprint c < 2 ^ 63" by simp
  with Cons.prems(1) 1 have "stepped c c1" by (simp only: step_stepped)
  then have c1: "cinv c1" and le: "footprint c1 \<le> footprint c + 3" by (simp_all add: stepped_def)
  from le Cons.prems(2) have "footprint c1 + 3 * length xs < 2 ^ 63" by simp
  from Cons.IH [OF c1 this 2] le show ?case by simp
qed

lemma reachable_cinv:
  assumes "run esft ops init_config = Inr c" and "length ops < 2 ^ 61"
  shows "cinv c"
proof -
  have "3 * length ops < 3 * 2 ^ 61" using assms(2) by simp
  also have "\<dots> < (2::nat) ^ 63" by simp
  finally have "footprint init_config + 3 * length ops < 2 ^ 63" by (simp add: footprint_init)
  from run_cinv [OF cinv_init this assms(1)] show ?thesis by simp
qed

section \<open>The lifecycle of a control block and the use count\<close>



definition cfg_null_copied :: config where
  "cfg_null_copied =
     \<lparr>mem = \<lparr>cblocks = [0 \<mapsto> \<lparr>strong_ref_counter = 1, weak_ref_counter = 0,
                               variant = ControlBlockPtr NullPtr\<rparr>],
             objs = Map.empty, next_addr = 1,
             trace = [AllocBlock 0 (ControlBlockPtr NullPtr)]\<rparr>,
      shared = [\<lparr>sp_ptr = NullPtr, sp_cblock = Some 0\<rparr>,
                \<lparr>sp_ptr = NullPtr, sp_cblock = Some 0\<rparr>],
      weak = []\<rparr>"


definition cfg_two_owners :: config where
  "cfg_two_owners =
     \<lparr>mem = \<lparr>cblocks = [1 \<mapsto> \<lparr>strong_ref_counter = 2, weak_ref_counter = 2,
                               variant = ControlBlockPtr (HeapObj 0)\<rparr>],
             objs = [HeapObj 0 \<mapsto> \<lparr>wp_ptr = HeapObj 0, wp_cblock = Some 1\<rparr>],
             next_addr = 2,
             trace = [AllocObject 0, AllocBlock 1 (ControlBlockPtr (HeapObj 0))]\<rparr>,
      shared = [\<lparr>sp_ptr = HeapObj 0, sp_cblock = Some 1\<rparr>,
                \<lparr>sp_ptr = NullPtr, sp_cblock = None\<rparr>,
                \<lparr>sp_ptr = HeapObj 0, sp_cblock = Some 1\<rparr>],
      weak = [\<lparr>wp_ptr = HeapObj 0, wp_cblock = Some 1\<rparr>]\<rparr>"

lemmas run_defs =
  init_config_def empty_heap_def push_shared_def set_shared_def push_weak_def set_weak_def
  SharedPtr_ctor_default_def SharedPtr_ctor_raw_def SharedPtr_ctor_copy_def SharedPtr_ctor_move_def
  SharedPtr_ctor_holder_def SharedPtr_ctor_alias_def SharedPtr_ctor_weak_def
  SharedPtr_assign_copy_def SharedPtr_assign_move_def SharedPtr_dtor_def SharedPtr_Reset_def
  SharedPtr_Reset_ptr_def SharedPtr_Swap_def SharedPtr_Release_def SharedPtr_Zeroing_def
  MakeShared_def new_ControlBlockPtr_def new_ControlBlockHolder_def allocate_holder_def
  T_default_def new_object_def GetPtr_def
  set_weak_this_def clear_weak_this_def write_weak_this_def
  WeakPtr_assign_shared_def WeakPtr_Release_def WeakPtr_Zeroing_def WeakPtr_Reset_def
  WeakPtr_Expired_def WeakPtr_UseCount_def WeakPtr_ctor_default_def WeakPtr_ctor_copy_def
  WeakPtr_ctor_move_def WeakPtr_ctor_shared_def WeakPtr_assign_copy_def WeakPtr_assign_move_def
  WeakPtr_dtor_def WeakPtr_Swap_def WeakPtr_Lock_def SharedFromThis_def WeakFromThis_def
  Dispose_def Destroy_def destroy_object_def cb_defs Let_def


lemma run_null_copied: "run False [S_adopt_null, S_copy 0] init_config = Inr cfg_null_copied"
  by (simp add: run_defs cfg_null_copied_def)


lemma run_two_owners:
  "run True [S_adopt_new, S_copy 0, S_move 1, W_demote 2] init_config = Inr cfg_two_owners"
  by (simp add: run_defs cfg_two_owners_def)

lemma cinv_ok:
  assumes "cinv c"
  shows "ok a (mem c) (srefs c a) (wrefs c a + orefs (objs (mem c)) a)"
proof -
  from assms have "hinv {} (mem c) (srefs c) (\<lambda>a. wrefs c a + orefs (objs (mem c)) a)"
    by (simp add: cinv_def Winv_def)
  then show ?thesis by (rule hinv_okD)
qed





text \<open>
  C2, as the code has it. After any program as in C1, a shared pointer that refers to a
  control block made by \<open>MakeShared\<close> or from a pointer that is not null has a \<open>UseCount\<close>
  equal to the number of shared pointers that refer to this block (itself included, so
  at least 1; a shared pointer that was reset or moved from refers to no block).
\<close>

theorem UseCount_counts_owners:
  assumes run: "run esft ops init_config = Inr c"
    and len: "length ops < 2 ^ 61"
    and i: "i < length (shared c)"
    and ref: "sp_cblock (shared c ! i) = Some a"
    and own: "owning_block (mem c) a"
  shows "SharedPtr_UseCount (shared c ! i) (mem c) = Inr (of_nat (srefs c a)) \<and>
         0 < srefs c a \<and> srefs c a < 2 ^ 64"
proof -
  have inv: "cinv c" using run len by (rule reachable_cinv)
  from own have oa: "owning_alloc (events_of a (mem c))" by (simp add: owning_block_def)
  note k = cinv_ok [OF inv, of a]
  have pos: "0 < srefs c a"
    using scount_pos [OF i ref] by (simp add: srefs_scount)
  with k oa obtain cb where cb: "cblocks (mem c) a = Some cb"
    by (cases "cblocks (mem c) a") (simp_all add: ok_def)
  from k oa cb have s: "unat (strong_ref_counter cb) = srefs c a"
    by (simp add: ok_def)
  then have "of_nat (srefs c a) = strong_ref_counter cb" by (simp add: s [symmetric])
  moreover have "srefs c a < 2 ^ 64"
    using unsigned_less [of "strong_ref_counter cb", where ?'a = nat] s by simp
  ultimately show ?thesis
    using pos cb ref
    by (simp add: SharedPtr_UseCount_def load_cb_def GetStrongRefsCount_def)
qed

text \<open>
  The program \<open>sp0 = SharedPtr<T>(new T); sp1 = sp0; sp2 = std::move(sp1);\<close>
  \<open>w = WeakPtr<T>(sp2)\<close> for a type with the capability: \<open>sp0\<close> and \<open>sp2\<close> share the block
  at address 1 and \<open>sp2.UseCount()\<close> is 2.
\<close>

theorem UseCount_counts_owners_witness:
  "run True [S_adopt_new, S_copy 0, S_move 1, W_demote 2] init_config = Inr cfg_two_owners \<and>
   length [S_adopt_new, S_copy 0, S_move 1, W_demote 2] < 2 ^ 61 \<and>
   2 < length (shared cfg_two_owners) \<and>
   sp_cblock (shared cfg_two_owners ! 2) = Some 1 \<and>
   owning_block (mem cfg_two_owners) 1 \<and>
   SharedPtr_UseCount (shared cfg_two_owners ! 2) (mem cfg_two_owners) = Inr 2 \<and>
   srefs cfg_two_owners 1 = 2"
proof -
  have l: "length [S_adopt_new, S_copy 0, S_move 1, W_demote 2] < 2 ^ 61"
    by simp
  have i: "2 < length (shared cfg_two_owners)"
    by (simp add: cfg_two_owners_def)
  have r: "sp_cblock (shared cfg_two_owners ! 2) = Some 1"
    by (simp add: cfg_two_owners_def)
  have o: "owning_block (mem cfg_two_owners) 1"
    by (simp add: owning_block_def events_of_def cfg_two_owners_def)
  have n: "srefs cfg_two_owners 1 = 2"
    by (simp add: srefs_def cfg_two_owners_def)
  from UseCount_counts_owners [OF run_two_owners l i r o] run_two_owners l i r o n
  show ?thesis
    by simp
qed

text \<open>
  C2 as stated fails for a shared pointer made from a null pointer and then copied:
  \<open>SharedPtr<T> sp0((T*)nullptr); SharedPtr<T> sp1 = sp0;\<close>. Two shared pointers refer
  to the block at address 0 and \<open>UseCount\<close> is 1 on both (both hold a null raw pointer,
  so their \<open>operator bool\<close> is false).
\<close>

theorem UseCount_after_null_adoption:
  "run False [S_adopt_null, S_copy 0] init_config = Inr cfg_null_copied \<and>
   map sp_cblock (shared cfg_null_copied) = [Some 0, Some 0] \<and>
   srefs cfg_null_copied 0 = 2 \<and>
   map SharedPtr_bool (shared cfg_null_copied) = [False, False] \<and>
   SharedPtr_UseCount (shared cfg_null_copied ! 0) (mem cfg_null_copied) = Inr 1 \<and>
   SharedPtr_UseCount (shared cfg_null_copied ! 1) (mem cfg_null_copied) = Inr 1"
  using run_null_copied
  by (simp add: cfg_null_copied_def srefs_def SharedPtr_bool_def SharedPtr_Get_def
      SharedPtr_UseCount_def load_cb_def GetStrongRefsCount_def)

text \<open>
  C6 as stated fails for a shared pointer whose control block was made from a null
  pointer. After \<open>SharedPtr<T> sp0((T*)nullptr); WeakPtr<T> w(sp0);\<close>
  \<open>SharedPtr<T> sp1(sp0, p);\<close> and the destruction of \<open>sp0\<close>, the pointer \<open>sp1\<close> is not
  null and has a control block, whose strong count is 0. An aliasing constructor from
  \<open>sp1\<close> followed by \<open>sp1.Reset()\<close> leaves the strong count at 0, and \<open>Dispose\<close> is
  called.
\<close>

definition cfg_null_alias :: config where
  "cfg_null_alias =
     \<lparr>mem = \<lparr>cblocks = [0 \<mapsto> \<lparr>strong_ref_counter = 0, weak_ref_counter = 1,
                               variant = ControlBlockPtr NullPtr\<rparr>],
             objs = Map.empty, next_addr = 1,
             trace = [AllocBlock 0 (ControlBlockPtr NullPtr), DisposeCall 0 0]\<rparr>,
      shared = [\<lparr>sp_ptr = NullPtr, sp_cblock = None\<rparr>,
                \<lparr>sp_ptr = HeapObj 7, sp_cblock = Some 0\<rparr>],
      weak = [\<lparr>wp_ptr = NullPtr, wp_cblock = Some 0\<rparr>]\<rparr>"

definition cfg_null_alias_reset :: config where
  "cfg_null_alias_reset =
     \<lparr>mem = \<lparr>cblocks = [0 \<mapsto> \<lparr>strong_ref_counter = 0, weak_ref_counter = 1,
                               variant = ControlBlockPtr NullPtr\<rparr>],
             objs = Map.empty, next_addr = 1,
             trace = [AllocBlock 0 (ControlBlockPtr NullPtr), DisposeCall 0 0, DisposeCall 0 0]\<rparr>,
      shared = [\<lparr>sp_ptr = NullPtr, sp_cblock = None\<rparr>,
                \<lparr>sp_ptr = NullPtr, sp_cblock = None\<rparr>,
                \<lparr>sp_ptr = HeapObj 8, sp_cblock = Some 0\<rparr>],
      weak = [\<lparr>wp_ptr = NullPtr, wp_cblock = Some 0\<rparr>]\<rparr>"

theorem aliasing_after_null_adoption:
  "run False [S_adopt_null, W_demote 0, S_alias 0 (HeapObj 7), S_dtor 0] init_config
     = Inr cfg_null_alias \<and>
   shared cfg_null_alias ! 1 = \<lparr>sp_ptr = HeapObj 7, sp_cblock = Some 0\<rparr> \<and>
   SharedPtr_bool (shared cfg_null_alias ! 1) \<and>
   SharedPtr_UseCount (shared cfg_null_alias ! 1) (mem cfg_null_alias) = Inr 0 \<and>
   run False [S_alias 1 (HeapObj 8), S_reset 1] cfg_null_alias = Inr cfg_null_alias_reset \<and>
   shared cfg_null_alias_reset ! 2 = \<lparr>sp_ptr = HeapObj 8, sp_cblock = Some 0\<rparr> \<and>
   SharedPtr_UseCount (shared cfg_null_alias_reset ! 2) (mem cfg_null_alias_reset) = Inr 0 \<and>
   trace (mem cfg_null_alias_reset) = trace (mem cfg_null_alias) @ [DisposeCall 0 0]"
proof -
  have 1: "run False [S_adopt_null, W_demote 0, S_alias 0 (HeapObj 7), S_dtor 0] init_config
      = Inr cfg_null_alias"
    by (simp add: run_defs cfg_null_alias_def)
  have 2: "run False [S_alias 1 (HeapObj 8), S_reset 1] cfg_null_alias = Inr cfg_null_alias_reset"
    by (simp add: run_defs cfg_null_alias_def cfg_null_alias_reset_def)
  show ?thesis
    using 1 2
    by (simp add: cfg_null_alias_def cfg_null_alias_reset_def SharedPtr_bool_def SharedPtr_Get_def
        SharedPtr_UseCount_def load_cb_def GetStrongRefsCount_def)
qed

end
